theory Spec2Isabelle
  imports Main "HOL-Library.Word" "HOL-Library.AList"
begin

section \<open>Library functions the program calls\<close>

text \<open>
  The program is written in Go. \<open>uint64\<close> and \<open>uint\<close> are \<open>64 word\<close> (arithmetic
  wraps), \<open>*big.Int\<close> is \<open>int\<close>, a Go string is a \<open>string\<close>, a nil pointer is
  \<open>None\<close>. A run-time panic and \<open>log.Fatal\<close> (which exits the process) are error
  values of the model, as is a returned Go \<open>error\<close>.
\<close>

type_synonym uint64 = "64 word"
type_synonym byte = "8 word"

subsection \<open>\<open>big.Int.SetString(s, 10)\<close>\<close>

text \<open>
  The standard library reads an optional sign \<open>+\<close> or \<open>-\<close>, then at least one decimal
  digit, and fails unless the whole string was consumed. With an explicit base 10 no
  prefix and no underscore is accepted.
\<close>

definition isDigit :: "char \<Rightarrow> bool" where
  "isDigit c = (48 \<le> (of_char c :: nat) \<and> (of_char c :: nat) \<le> 57)"

definition digitVal :: "char \<Rightarrow> int" where
  "digitVal c = int (of_char c) - 48"

fun scanDigits :: "int \<Rightarrow> string \<Rightarrow> int option" where
  "scanDigits acc [] = Some acc"
| "scanDigits acc (c # cs) =
     (if isDigit c then scanDigits (acc * 10 + digitVal c) cs else None)"

definition scanNat :: "string \<Rightarrow> int option" where
  "scanNat s = (if s = [] then None else scanDigits 0 s)"

definition SetString10 :: "string \<Rightarrow> int option" where
  "SetString10 s =
     (case s of
        [] \<Rightarrow> None
      | c # cs \<Rightarrow>
          if c = CHR ''-'' then map_option uminus (scanNat cs)
          else if c = CHR ''+'' then scanNat cs
          else scanNat s)"

text \<open>The strings \<open>SetString10\<close> accepts, said directly: a signed decimal numeral.\<close>

definition isBase10 :: "string \<Rightarrow> bool" where
  "isBase10 s =
     (\<exists>body. (s = body \<or> s = CHR ''+'' # body \<or> s = CHR ''-'' # body)
        \<and> body \<noteq> [] \<and> list_all isDigit body)"

subsection \<open>\<open>strconv.ParseBool\<close>\<close>

definition ParseBool :: "string \<Rightarrow> bool option" where
  "ParseBool str =
     (if str \<in> {''1'', ''t'', ''T'', ''true'', ''TRUE'', ''True''} then Some True
      else if str \<in> {''0'', ''f'', ''F'', ''false'', ''FALSE'', ''False''} then Some False
      else None)"

subsection \<open>\<open>common.HexToAddress\<close>\<close>

text \<open>
  go-ethereum strips a \<open>0x\<close> or \<open>0X\<close> prefix, pads an odd-length string with a leading
  \<open>0\<close>, decodes hex pairs up to the first invalid byte (the decoding error is dropped),
  and keeps the last 20 bytes, left-padded with zeros. It never fails.
\<close>

type_synonym Address = "byte list"

definition fromHexChar :: "char \<Rightarrow> byte option" where
  "fromHexChar c =
     (let n = (of_char c :: nat) in
      if 48 \<le> n \<and> n \<le> 57 then Some (of_nat (n - 48))
      else if 97 \<le> n \<and> n \<le> 102 then Some (of_nat (n - 87))
      else if 65 \<le> n \<and> n \<le> 70 then Some (of_nat (n - 55))
      else None)"

fun hexDecode :: "string \<Rightarrow> byte list" where
  "hexDecode (p # q # rest) =
     (case fromHexChar p of
        None \<Rightarrow> []
      | Some a \<Rightarrow>
          (case fromHexChar q of
             None \<Rightarrow> []
           | Some b \<Rightarrow> (a * 16 + b) # hexDecode rest))"
| "hexDecode _ = []"

definition has0xPrefix :: "string \<Rightarrow> bool" where
  "has0xPrefix s =
     (length s \<ge> 2 \<and> s ! 0 = CHR ''0'' \<and> (s ! 1 = CHR ''x'' \<or> s ! 1 = CHR ''X''))"

definition FromHex :: "string \<Rightarrow> byte list" where
  "FromHex s =
     (let s1 = (if has0xPrefix s then drop 2 s else s);
          s2 = (if length s1 mod 2 = 1 then CHR ''0'' # s1 else s1)
      in hexDecode s2)"

definition AddressLength :: nat where
  "AddressLength = 20"

definition BytesToAddress :: "byte list \<Rightarrow> Address" where
  "BytesToAddress b =
     (let b1 = (if length b > AddressLength then drop (length b - AddressLength) b else b)
      in replicate (AddressLength - length b1) 0 @ b1)"

definition HexToAddress :: "string \<Rightarrow> Address" where
  "HexToAddress s = BytesToAddress (FromHex s)"

section \<open>Parameter coercion (\<open>Test.convertParams\<close>)\<close>

text \<open>
  The type tags of \<open>abi.Type.T\<close>, and the values a YAML document decodes to in an
  \<open>interface{}\<close>: the code asserts only \<open>string\<close> and \<open>bool\<close>.
\<close>

datatype abi_T =
  IntTy | UintTy | BoolTy | StringTy | SliceTy | ArrayTy | TupleTy | AddressTy
  | FixedBytesTy | BytesTy | HashTy | FixedPointTy | FunctionTy

datatype yaml_value = YString string | YBool bool | YInt int | YNull

datatype abi_value = VAddress Address | VBigInt int | VBool bool | VString string

text \<open>
  The errors \<open>convertParams\<close> returns: one constructor per \<open>fmt.Errorf\<close> of the source,
  with the arguments it formats (the position \<open>i\<close> first).
\<close>

datatype conv_error =
  ParameterCountMismatch nat nat
  | MustBeAddress nat
  | InvalidUint256Value nat string
  | IncorrectTypeOrFormat nat
  | MustBeBoolean nat
  | ShouldBeBool nat
  | MustBeString nat
  | UnsupportedParameterType nat abi_T

fun convertParam :: "nat \<Rightarrow> abi_T \<Rightarrow> yaml_value \<Rightarrow> conv_error + abi_value" where
  "convertParam i AddressTy param =
     (case param of
        YString str \<Rightarrow> Inr (VAddress (HexToAddress str))
      | _ \<Rightarrow> Inl (MustBeAddress i))"
| "convertParam i UintTy param =
     (case param of
        YString str \<Rightarrow>
          (case SetString10 str of
             None \<Rightarrow> Inl (InvalidUint256Value i str)
           | Some v \<Rightarrow> Inr (VBigInt v))
      | _ \<Rightarrow> Inl (IncorrectTypeOrFormat i))"
| "convertParam i IntTy param =
     (case param of
        YString str \<Rightarrow>
          (case SetString10 str of
             None \<Rightarrow> Inl (InvalidUint256Value i str)
           | Some v \<Rightarrow> Inr (VBigInt v))
      | _ \<Rightarrow> Inl (IncorrectTypeOrFormat i))"
| "convertParam i BoolTy param =
     (case param of
        YString str \<Rightarrow>
          (case ParseBool str of
             None \<Rightarrow> Inl (MustBeBoolean i)
           | Some v \<Rightarrow> Inr (VBool v))
      | YBool b \<Rightarrow> Inr (VBool b)
      | _ \<Rightarrow> Inl (ShouldBeBool i))"
| "convertParam i StringTy param =
     (case param of
        YString str \<Rightarrow> Inr (VString str)
      | _ \<Rightarrow> Inl (MustBeString i))"
| "convertParam i ty param = Inl (UnsupportedParameterType i ty)"

text \<open>
  The loop over \<open>method.Inputs\<close>, reading \<open>params[i]\<close>; it returns at the first error.
  The lengths are equal when the loop starts, so the last equation is never reached.
\<close>

fun convertLoop :: "nat \<Rightarrow> abi_T list \<Rightarrow> yaml_value list \<Rightarrow> conv_error + abi_value list" where
  "convertLoop i [] params = Inr []"
| "convertLoop i (input # inputs) (param # params) =
     (case convertParam i input param of
        Inl e \<Rightarrow> Inl e
      | Inr v \<Rightarrow>
          (case convertLoop (Suc i) inputs params of
             Inl e \<Rightarrow> Inl e
           | Inr vs \<Rightarrow> Inr (v # vs)))"
| "convertLoop i (input # inputs) [] = Inl (ParameterCountMismatch (Suc i + length inputs) i)"

definition convertParams :: "abi_T list \<Rightarrow> yaml_value list \<Rightarrow> conv_error + abi_value list" where
  "convertParams inputs params =
     (if length inputs \<noteq> length params
      then Inl (ParameterCountMismatch (length inputs) (length params))
      else convertLoop 0 inputs params)"

section \<open>Failures\<close>

text \<open>
  How a call can fail to return a value: \<open>log.Fatal\<close> exits the process, a run-time
  panic aborts it, and a Go \<open>error\<close> is returned to the caller.
\<close>

datatype go_error =
  EmptyTests
  | NotEnoughSenders
  | CannotDecryptSenderPK
  | FailedToSetSenderNonce
  | InvalidMethodName string
  | FailedToSignTransaction go_error

datatype panic = NilPointerDereference | IntegerDivideByZero | NilMapAssignment
  | SliceBoundsOutOfRange | MakesliceLenOutOfRange

datatype failure = LogFatal string | Panic panic | Error go_error

section \<open>Identities and transactions (\<open>Sender\<close>, \<open>Transaction\<close>)\<close>

record Sender =
  Address :: Address
  PrivateKey :: string
  Nonce :: uint64

text \<open>
  \<open>defineCurrentSenderNonce\<close>: the argument is the node's answer to \<open>PendingNonceAt\<close>
  (\<open>None\<close> when the call fails).
\<close>

definition defineCurrentSenderNonce :: "uint64 option \<Rightarrow> Sender \<Rightarrow> failure + Sender" where
  "defineCurrentSenderNonce PendingNonceAt sender =
     (case PendingNonceAt of
        None \<Rightarrow> Inl (Error FailedToSetSenderNonce)
      | Some nonce \<Rightarrow> Inr (sender\<lparr>Nonce := nonce\<rparr>))"

record DynamicFeeTx =
  tx_Nonce :: uint64
  tx_To :: Address
  tx_Value :: int
  tx_GasFeeCap :: int
  tx_GasTipCap :: int
  tx_Data :: "byte list"
  tx_Gas :: uint64

text \<open>
  The fields of \<open>types.Receipt\<close> the code reads. The two \<open>*big.Int\<close> are numbers
  here: a receipt in which the node left one of them out (a nil \<open>BlockNumber\<close> or
  \<open>EffectiveGasPrice\<close>) is not among the receipts of the model. \<open>CollectMetrics\<close>
  dereferences both, so on such a receipt it panics as it does on a nil receipt.
\<close>

record Receipt =
  BlockNumber :: int
  BlockHash :: string
  EffectiveGasPrice :: int
  Status :: uint64

text \<open>
  \<open>clientTransaction\<close> is the signed transaction (\<open>None\<close>: the nil pointer), modelled by
  the fields that were signed. \<open>receipt\<close> is the outcome slot, nil until resolved.
  The field \<open>sender\<close> of the source is \<open>txSender\<close> here.
\<close>

record Transaction =
  clientTransaction :: "DynamicFeeTx option"
  receipt :: "Receipt option"
  txSender :: Address
  status :: bool
  sentBlock :: uint64
  minedBlock :: uint64
  sentTimestamp :: int

text \<open>
  What the node and the signer answer during one call of \<open>CreateAndSignTransaction\<close>:
  \<open>None\<close> is a returned error; \<open>SignTx\<close> says whether \<open>types.SignTx\<close> succeeds.
\<close>

record build_reply =
  SuggestGasTipCap :: "int option"
  SuggestGasPrice :: "int option"
  EstimateGas :: "uint64 option"
  SignTx :: bool

text \<open>
  The nonce is read into the transaction body, and \<open>sender.Nonce\<close> is incremented
  after \<open>types.SignTx\<close> whatever it returned: its \<open>err\<close> is assigned and never read, and
  the function returns a nil error on every path that returns.
\<close>

definition CreateAndSignTransaction ::
  "build_reply \<Rightarrow> Sender \<Rightarrow> Address \<Rightarrow> int \<Rightarrow> byte list \<Rightarrow> failure + (Transaction \<times> Sender)" where
  "CreateAndSignTransaction node sender receiver valueToSend data =
     (case SuggestGasTipCap node of
        None \<Rightarrow> Inl (LogFatal ''error getting tipCap'')
      | Some tipCap \<Rightarrow>
     (case SuggestGasPrice node of
        None \<Rightarrow> Inl (LogFatal ''error getting feeCap'')
      | Some feeCap \<Rightarrow>
     (case EstimateGas node of
        None \<Rightarrow> Inl (LogFatal ''Failed to estimate gas'')
      | Some gasLimit \<Rightarrow>
          (let dynTx = \<lparr>tx_Nonce = Nonce sender, tx_To = receiver, tx_Value = valueToSend,
                 tx_GasFeeCap = feeCap, tx_GasTipCap = tipCap,
                 tx_Data = (if length data \<noteq> 0 then data else []), tx_Gas = gasLimit\<rparr>;
               signedTx = (if SignTx node then Some dynTx else None);
               sender' = sender\<lparr>Nonce := Nonce sender + 1\<rparr>;
               transaction = \<lparr>clientTransaction = signedTx, receipt = None,
                 txSender = Address sender, status = False, sentBlock = 0, minedBlock = 0,
                 sentTimestamp = 0\<rparr>
           in Inr (transaction, sender')))))"

text \<open>
  Any sequence of calls on one identity, as the signing loops of all the tests that
  share the identity make them: each call has its own replies, receiver, value and data.
\<close>

type_synonym build_call = "build_reply \<times> Address \<times> int \<times> byte list"

fun buildAll :: "build_call list \<Rightarrow> Sender \<Rightarrow> failure + (Transaction list \<times> Sender)" where
  "buildAll [] sender = Inr ([], sender)"
| "buildAll ((node, receiver, valueToSend, data) # calls) sender =
     (case CreateAndSignTransaction node sender receiver valueToSend data of
        Inl e \<Rightarrow> Inl e
      | Inr (tx, sender') \<Rightarrow>
          (case buildAll calls sender' of
             Inl e \<Rightarrow> Inl e
           | Inr (txs, sender'') \<Rightarrow> Inr (tx # txs, sender'')))"

text \<open>The nonces carried by the signed artifacts of a list, in order.\<close>

definition nonces :: "Transaction list \<Rightarrow> uint64 list" where
  "nonces txs = map tx_Nonce (List.map_filter clientTransaction txs)"

section \<open>Configuration (\<open>Config\<close>)\<close>

text \<open>
  Go's \<open>int\<close> is \<open>int\<close> here, with the 64-bit wrap-around written where the code
  multiplies. \<open>quo\<close> is Go's integer division, which truncates towards zero.
\<close>

definition int64 :: "int \<Rightarrow> int" where
  "int64 x = signed_take_bit 63 x"

definition quo :: "int \<Rightarrow> int \<Rightarrow> int" where
  "quo a b = sgn a * sgn b * (\<bar>a\<bar> div \<bar>b\<bar>)"

record FunctionConfig =
  Name :: string
  ABI :: string
  Params :: "yaml_value list"

text \<open>The contract's \<open>Address\<close> field is \<open>ContractAddress\<close> here, \<open>value\<close> is \<open>cfg_value\<close>.\<close>

record ContractConfig =
  ContractAddress :: string
  Function :: FunctionConfig

record TestConfig =
  Senders :: int
  Duration :: int
  TPS :: int
  Contract :: ContractConfig
  DataSize :: int
  cfg_value :: string

record TestEntity =
  Type :: string
  Config :: TestConfig

definition SEND :: string where
  "SEND = ''send''"

definition CALL :: string where
  "CALL = ''call''"

definition AttemptsToCollect :: nat where
  "AttemptsToCollect = 10"

section \<open>One test case (\<open>Test\<close>)\<close>

record Function =
  name :: string
  abi :: string
  params :: "yaml_value list"

record Contract =
  address :: string
  functionData :: Function

record Block =
  Number :: int
  TransactionsLen :: nat
  GasUsed :: uint64
  Time :: uint64

record Metrics =
  configTps :: uint64
  realTps :: uint64
  avgTxsPerBlock :: uint64
  avgTxsBlockDiffIncluded :: "uint64 \<rightharpoonup> uint64"
  avgTimeToInclude :: uint64
  avgGasPricePerTx :: uint64
  avgGasUsedPerBlock :: uint64
  succeedTxs :: uint64
  failedTxs :: uint64

text \<open>
  \<open>senderTransactions\<close> is a Go map from the sender's address string to its artifacts:
  an association list (Go iterates a map in an order it does not specify; the list's
  order stands for the order of one run), \<open>None\<close> for the nil map. A \<open>*Sender\<close> is an
  index into the runner's list of senders, which all tests share. The field \<open>value\<close>
  is \<open>test_value\<close> here. Call mode (\<open>callMetrics\<close>) is not modelled.
\<close>

type_synonym txmap = "(Address \<times> Transaction list) list"

record Test =
  chainId :: int
  testName :: string
  testType :: string
  dataSize :: int
  txsCount :: int
  duration :: int
  tps :: int
  test_value :: int
  senders :: "nat list"
  isContract :: bool
  contract :: Contract
  senderTransactions :: "txmap option"
  blocks :: "Block list"
  startBlock :: uint64
  endBlock :: uint64
  metrics :: "Metrics option"

definition NewTest :: "int \<Rightarrow> string \<Rightarrow> TestEntity \<Rightarrow> Test" where
  "NewTest chainId' configTestName configTest =
     \<lparr>chainId = chainId',
      testName = configTestName,
      testType = Type configTest,
      dataSize = DataSize (Config configTest),
      txsCount = int64 (TPS (Config configTest) * Duration (Config configTest)),
      duration = Duration (Config configTest),
      tps = TPS (Config configTest),
      test_value =
        (if cfg_value (Config configTest) = [] then 0
         else (case SetString10 (cfg_value (Config configTest)) of
                 Some v \<Rightarrow> v
               | None \<Rightarrow> 0)),
      senders = [],
      isContract =
        (ContractAddress (Contract (Config configTest)) \<noteq> [] \<and>
         Name (Function (Contract (Config configTest))) \<noteq> [] \<and>
         ABI (Function (Contract (Config configTest))) \<noteq> []),
      contract =
        \<lparr>address = ContractAddress (Contract (Config configTest)),
         functionData =
           \<lparr>name = Name (Function (Contract (Config configTest))),
            abi = ABI (Function (Contract (Config configTest))),
            params = Params (Function (Contract (Config configTest)))\<rparr>\<rparr>,
      senderTransactions = None,
      blocks = [],
      startBlock = 0,
      endBlock = 0,
      metrics = None\<rparr>"

subsection \<open>\<open>SignTransactions\<close>\<close>

text \<open>
  The ABI library is outside the repository: \<open>JSON\<close> parses an interface description
  into its methods (a method is the list of its inputs' type tags), \<open>Pack\<close> encodes a
  call; \<open>None\<close> is a returned error.
\<close>

record abi_lib =
  JSON :: "string \<Rightarrow> (string \<rightharpoonup> abi_T list) option"
  Pack :: "(string \<rightharpoonup> abi_T list) \<Rightarrow> string \<Rightarrow> abi_value list \<Rightarrow> byte list option"

definition generateData :: "int \<Rightarrow> failure + byte list" where
  "generateData sizeInBytes =
     (if sizeInBytes < 0 then Inl (Panic MakesliceLenOutOfRange)
      else Inr (replicate (nat sizeInBytes) 0x41))"

text \<open>The first part of \<open>SignTransactions\<close>: the payload every transaction carries.\<close>

definition signData :: "abi_lib \<Rightarrow> Test \<Rightarrow> failure + byte list" where
  "signData lib t =
     (if isContract t then
        (case JSON lib (abi (functionData (contract t))) of
           None \<Rightarrow> Inl (LogFatal ''failed to parse contract ABI'')
         | Some parsedABI \<Rightarrow>
        (case parsedABI (name (functionData (contract t))) of
           None \<Rightarrow> Inl (Error (InvalidMethodName (name (functionData (contract t)))))
         | Some abiMethod \<Rightarrow>
        (case convertParams abiMethod (params (functionData (contract t))) of
           Inl e \<Rightarrow> Inl (LogFatal ''failed to convert function parameters'')
         | Inr convertedParams \<Rightarrow>
        (case Pack lib parsedABI (name (functionData (contract t))) convertedParams of
           None \<Rightarrow> Inl (LogFatal ''failed to pack ABI data'')
         | Some data \<Rightarrow> Inr data))))
      else if dataSize t \<noteq> 0 then generateData (dataSize t)
      else Inr [])"

definition lookupTxs :: "txmap option \<Rightarrow> Address \<Rightarrow> Transaction list" where
  "lookupTxs m a =
     (case m of
        None \<Rightarrow> []
      | Some al \<Rightarrow> (case map_of al a of None \<Rightarrow> [] | Some txs \<Rightarrow> txs))"

text \<open>
  The loop \<open>for j := 0; j < txPerSender; j++\<close> for the sender at index \<open>p\<close>: \<open>n\<close>
  iterations are left, \<open>node j\<close> are the replies during the \<open>j\<close>-th build. The state is
  the senders (the nonce is written through the pointer) and the map. Writing to a nil
  map panics.
\<close>

fun signLoop ::
  "(nat \<Rightarrow> build_reply) \<Rightarrow> Address \<Rightarrow> int \<Rightarrow> byte list \<Rightarrow> nat \<Rightarrow> nat \<Rightarrow> nat \<Rightarrow>
   Sender list \<times> txmap option \<Rightarrow> failure + (Sender list \<times> txmap option)" where
  "signLoop node receiver v data p j 0 st = Inr st"
| "signLoop node receiver v data p j (Suc n) (store, m) =
     (case CreateAndSignTransaction (node j) (store ! p) receiver v data of
        Inl (Error e) \<Rightarrow> Inl (Error (FailedToSignTransaction e))
      | Inl e \<Rightarrow> Inl e
      | Inr (signedTx, sender') \<Rightarrow>
          (case m of
             None \<Rightarrow> Inl (Panic NilMapAssignment)
           | Some al \<Rightarrow>
               signLoop node receiver v data p (Suc j) n
                 (store[p := sender'],
                  Some (AList.update (Address (store ! p))
                          (lookupTxs m (Address (store ! p)) @ [signedTx]) al))))"

text \<open>
  The loop over \<open>t.senders\<close>; \<open>pos\<close> is the position in the slice, \<open>node pos j\<close> the
  replies during the \<open>j\<close>-th build of that sender. An index outside the list of
  senders stands for a nil \<open>*Sender\<close>.
\<close>

fun sendersLoop ::
  "(nat \<Rightarrow> nat \<Rightarrow> build_reply) \<Rightarrow> Test \<Rightarrow> byte list \<Rightarrow> nat \<Rightarrow> nat \<Rightarrow> nat list \<Rightarrow>
   Sender list \<times> txmap option \<Rightarrow> failure + (Sender list \<times> txmap option)" where
  "sendersLoop node t data txPerSender pos [] st = Inr st"
| "sendersLoop node t data txPerSender pos (p # ps) (store, m) =
     (if p \<ge> length store then Inl (Panic NilPointerDereference)
      else
        (case signLoop (node pos)
                (if isContract t then HexToAddress (address (contract t))
                 else Address (store ! p))
                (test_value t) data p 0 txPerSender (store, m) of
           Inl e \<Rightarrow> Inl e
         | Inr st' \<Rightarrow> sendersLoop node t data txPerSender (Suc pos) ps st'))"

text \<open>
  \<open>txPerSender\<close> is computed first: with no sender the division panics. A negative
  \<open>txPerSender\<close> runs the inner loop zero times.
\<close>

definition SignTransactions ::
  "abi_lib \<Rightarrow> (nat \<Rightarrow> nat \<Rightarrow> build_reply) \<Rightarrow> Sender list \<Rightarrow> Test \<Rightarrow> failure + (Sender list \<times> Test)" where
  "SignTransactions lib node store t =
     (if length (senders t) = 0 then Inl (Panic IntegerDivideByZero)
      else
        (let txPerSender = quo (txsCount t) (int (length (senders t))) in
         case signData lib t of
           Inl e \<Rightarrow> Inl e
         | Inr data \<Rightarrow>
             (case sendersLoop node t data (nat txPerSender) 0 (senders t)
                     (store, senderTransactions t) of
                Inl e \<Rightarrow> Inl e
              | Inr (store', m') \<Rightarrow> Inr (store', t\<lparr>senderTransactions := m'\<rparr>))))"

text \<open>
  Two ways to read a map of artifacts: how many artifacts it holds in all, and whether
  every signed artifact in it carries the value \<open>v\<close>.
\<close>

definition artifactCount :: "txmap option \<Rightarrow> nat" where
  "artifactCount m =
     (case m of None \<Rightarrow> 0 | Some al \<Rightarrow> sum_list (map (\<lambda>e. length (snd e)) al))"

definition valueInv :: "int \<Rightarrow> txmap option \<Rightarrow> bool" where
  "valueInv v m =
     (\<forall>b tx d. tx \<in> set (lookupTxs m b) \<and> clientTransaction tx = Some d \<longrightarrow> tx_Value d = v)"

subsection \<open>\<open>CollectData\<close>\<close>

text \<open>
  The node during collection: \<open>TransactionReceipt a attempts txIndex\<close> is its answer
  when the collector of the sender with address \<open>a\<close> asks, in attempt \<open>attempts\<close>, for
  the receipt of its artifact \<open>txIndex\<close> (\<open>None\<close>: an error, the transaction is not
  mined yet); \<open>BlockByHash\<close> fetches a block.
\<close>

record collect_node =
  TransactionReceipt :: "Address \<Rightarrow> nat \<Rightarrow> nat \<Rightarrow> Receipt option"
  BlockByHash :: "string \<Rightarrow> Block option"

text \<open>
  What the collectors write besides the receipts: the local \<open>collectedTxCount\<close>, the
  set \<open>blocks\<close> of block hashes (\<open>blockHashes\<close>) and the shared counter.
\<close>

record collect_state =
  collectedTxCount :: int
  blockHashes :: "string list"
  totalCollectedTxCount :: "32 word"

definition consTx ::
  "Transaction \<Rightarrow> failure + (Transaction list \<times> collect_state) \<Rightarrow>
   failure + (Transaction list \<times> collect_state)" where
  "consTx tx r = (case r of Inl e \<Rightarrow> Inl e | Inr (txs, c) \<Rightarrow> Inr (tx # txs, c))"

text \<open>
  One sweep \<open>for txIndex := range t.senderTransactions[senderAddress]\<close>. An artifact
  with a receipt is skipped. Asking for the hash of a nil \<open>clientTransaction\<close> panics.
\<close>

fun sweep ::
  "(nat \<Rightarrow> Receipt option) \<Rightarrow> nat \<Rightarrow> Transaction list \<Rightarrow> collect_state \<Rightarrow>
   failure + (Transaction list \<times> collect_state)" where
  "sweep fetch txIndex [] c = Inr ([], c)"
| "sweep fetch txIndex (txSent # rest) c =
     (if receipt txSent \<noteq> None then consTx txSent (sweep fetch (Suc txIndex) rest c)
      else
        (case clientTransaction txSent of
           None \<Rightarrow> Inl (Panic NilPointerDereference)
         | Some clientTx \<Rightarrow>
             (case fetch txIndex of
                None \<Rightarrow> consTx txSent (sweep fetch (Suc txIndex) rest c)
              | Some txReceipt \<Rightarrow>
                  consTx (txSent\<lparr>receipt := Some txReceipt\<rparr>)
                    (sweep fetch (Suc txIndex) rest
                       (c\<lparr>collectedTxCount := collectedTxCount c + 1,
                          blockHashes := List.insert (BlockHash txReceipt) (blockHashes c),
                          totalCollectedTxCount := totalCollectedTxCount c + 1\<rparr>)))))"

text \<open>The loop \<open>for attempts < AttemptsToCollect && !txCollected\<close>.\<close>

function collectLoop ::
  "(nat \<Rightarrow> nat \<Rightarrow> Receipt option) \<Rightarrow> int \<Rightarrow> nat \<Rightarrow> bool \<Rightarrow> Transaction list \<Rightarrow>
   collect_state \<Rightarrow> failure + (Transaction list \<times> collect_state)" where
  "collectLoop fetch totalTxCount attempts txCollected txs c =
     (if attempts < AttemptsToCollect \<and> \<not> txCollected then
        (case sweep (fetch attempts) 0 txs c of
           Inl e \<Rightarrow> Inl e
         | Inr (txs', c') \<Rightarrow>
             collectLoop fetch totalTxCount (attempts + 1)
               (collectedTxCount c' = totalTxCount) txs' c')
      else Inr (txs, c))"
  by pat_completeness auto
termination
  by (relation "measure (\<lambda>(fetch, totalTxCount, attempts, txCollected, txs, c).
        AttemptsToCollect - attempts)") auto

declare collectLoop.simps [simp del]

text \<open>
  The body of one sender's goroutine. The receipts are written into the slice the map
  holds, so the map's entry changes where there is one.
\<close>

definition collectSender ::
  "collect_node \<Rightarrow> Address \<Rightarrow> txmap option \<times> string list \<times> 32 word \<Rightarrow>
   failure + (txmap option \<times> string list \<times> 32 word)" where
  "collectSender node senderAddress st =
     (case st of (m, hashes, counter) \<Rightarrow>
        (case collectLoop (TransactionReceipt node senderAddress)
                (int (length (lookupTxs m senderAddress))) 0 False
                (lookupTxs m senderAddress)
                \<lparr>collectedTxCount = 0, blockHashes = hashes, totalCollectedTxCount = counter\<rparr> of
           Inl e \<Rightarrow> Inl e
         | Inr (txs', c') \<Rightarrow>
             Inr (map_option (AList.map_entry senderAddress (\<lambda>old. txs')) m,
                  blockHashes c', totalCollectedTxCount c')))"

text \<open>
  The goroutines, one per sender, run here one after the other: each writes the
  receipts of its own sender's artifacts, and the set of hashes and the counter under a
  lock or atomically.
\<close>

fun collectSenders ::
  "collect_node \<Rightarrow> Sender list \<Rightarrow> nat list \<Rightarrow> txmap option \<times> string list \<times> 32 word \<Rightarrow>
   failure + (txmap option \<times> string list \<times> 32 word)" where
  "collectSenders node store [] st = Inr st"
| "collectSenders node store (p # ps) st =
     (if p \<ge> length store then Inl (Panic NilPointerDereference)
      else
        (case collectSender node (Address (store ! p)) st of
           Inl e \<Rightarrow> Inl e
         | Inr st' \<Rightarrow> collectSenders node store ps st'))"

fun fetchBlocks :: "(string \<Rightarrow> Block option) \<Rightarrow> string list \<Rightarrow> Block list \<Rightarrow> failure + Block list" where
  "fetchBlocks fetch [] bs = Inr bs"
| "fetchBlocks fetch (blockHash # hashes) bs =
     (case fetch blockHash of
        None \<Rightarrow> Inl (LogFatal ''failed to fetch block by hash'')
      | Some block \<Rightarrow> fetchBlocks fetch hashes (bs @ [block]))"

text \<open>
  The blocks are then sorted by number (\<open>sort.Slice\<close>, which need not be stable; the
  insertion sort here is).
\<close>

definition CollectData ::
  "collect_node \<Rightarrow> Sender list \<Rightarrow> Test \<Rightarrow> 32 word \<Rightarrow> failure + (Test \<times> 32 word)" where
  "CollectData node store t counter =
     (case collectSenders node store (senders t) (senderTransactions t, [], counter) of
        Inl e \<Rightarrow> Inl e
      | Inr (m', hashes, counter') \<Rightarrow>
          (case fetchBlocks (BlockByHash node) hashes (blocks t) of
             Inl e \<Rightarrow> Inl e
           | Inr bs \<Rightarrow>
               Inr (t\<lparr>senderTransactions := m', blocks := sort_key Number bs\<rparr>, counter')))"

text \<open>
  What one collection may do to an artifact: leave it as it is, or fill the empty
  outcome slot.
\<close>

definition resolves :: "Transaction \<Rightarrow> Transaction \<Rightarrow> bool" where
  "resolves tx tx' =
     (tx' = tx \<or> (receipt tx = None \<and> (\<exists>r. tx' = tx\<lparr>receipt := Some r\<rparr>)))"

subsection \<open>\<open>CollectMetrics\<close>\<close>

text \<open>
  \<open>big.Int.Uint64\<close> gives the low 64 bits of the absolute value. An integer division
  by zero panics in Go, as \<open>big.Int.Div\<close> does (Euclidean division: \<open>div\<close> for the
  positive divisors the code has).
\<close>

definition big_Uint64 :: "int \<Rightarrow> uint64" where
  "big_Uint64 x = word_of_int \<bar>x\<bar>"

definition NumberU64 :: "Block \<Rightarrow> uint64" where
  "NumberU64 block = big_Uint64 (Number block)"

definition int_quo :: "int \<Rightarrow> int \<Rightarrow> failure + int" where
  "int_quo a b = (if b = 0 then Inl (Panic IntegerDivideByZero) else Inr (quo a b))"

definition uint_quo :: "uint64 \<Rightarrow> uint64 \<Rightarrow> failure + uint64" where
  "uint_quo a b = (if b = 0 then Inl (Panic IntegerDivideByZero) else Inr (a div b))"

definition big_Div :: "int \<Rightarrow> int \<Rightarrow> failure + int" where
  "big_Div a b = (if b = 0 then Inl (Panic IntegerDivideByZero) else Inr (a div b))"

text \<open>
  \<open>time.Unix(int64(block.Time()), 0).Sub(time.UnixMilli(tx.sentTimestamp))\<close> in
  milliseconds. A \<open>time.Time\<close> holds its seconds in an \<open>int64\<close> counted from the year 1:
  \<open>time.Unix\<close> adds \<open>unixToInternal\<close> to the seconds it is given, and that addition
  wraps for a block time within \<open>unixToInternal\<close> of \<open>2^63\<close> (the seconds of
  \<open>time.UnixMilli\<close> are too small to wrap). A \<open>time.Duration\<close> counts nanoseconds in
  an \<open>int64\<close>, and \<open>Sub\<close> saturates: it returns the smallest or the largest duration
  when the difference of the two times, as they are held, does not fit.
\<close>

definition unixToInternal :: int where
  "unixToInternal = 62135596800"

definition satDuration :: "int \<Rightarrow> int" where
  "satDuration d = max (- (2 ^ 63)) (min (2 ^ 63 - 1) d)"

definition timeDiffMilliseconds :: "uint64 \<Rightarrow> int \<Rightarrow> int" where
  "timeDiffMilliseconds blockTime sentTs =
     quo (satDuration
            ((int64 (sint blockTime + unixToInternal) - unixToInternal) * 1000000000
               - int64 sentTs * 1000000)) 1000000"

text \<open>The locals of the loop over the artifacts, with the metrics under construction.\<close>

record tally =
  tallyMetrics :: Metrics
  totalGasPrice :: int
  totalTxCount :: int
  totalTimeToInclude :: uint64

definition histKey :: "Receipt \<Rightarrow> Transaction \<Rightarrow> uint64" where
  "histKey r tx = big_Uint64 (BlockNumber r) - sentBlock tx"

definition increment :: "(uint64 \<rightharpoonup> uint64) \<Rightarrow> uint64 \<Rightarrow> (uint64 \<rightharpoonup> uint64)" where
  "increment h k = h(k \<mapsto> (case h k of None \<Rightarrow> 0 | Some n \<Rightarrow> n) + 1)"

definition timeToInclude :: "Block list \<Rightarrow> Receipt \<Rightarrow> Transaction \<Rightarrow> uint64 \<Rightarrow> uint64" where
  "timeToInclude bs r tx acc =
     fold (\<lambda>block running.
            if NumberU64 block = big_Uint64 (BlockNumber r)
            then running + word_of_int (timeDiffMilliseconds (Time block) (sentTimestamp tx))
            else running) bs acc"

text \<open>
  The body of the inner loop \<open>for _, tx := range senderTxs\<close>. It reads
  \<open>tx.receipt.BlockNumber\<close> without a nil check.
\<close>

definition tallyTx :: "Block list \<Rightarrow> Transaction \<Rightarrow> tally \<Rightarrow> failure + tally" where
  "tallyTx bs tx a =
     (case receipt tx of
        None \<Rightarrow> Inl (Panic NilPointerDereference)
      | Some r \<Rightarrow>
          (let m1 = (tallyMetrics a)\<lparr>avgTxsBlockDiffIncluded :=
                      increment (avgTxsBlockDiffIncluded (tallyMetrics a)) (histKey r tx)\<rparr>;
               m2 = (if Status r = 0 then m1\<lparr>failedTxs := failedTxs m1 + 1\<rparr>
                     else m1\<lparr>succeedTxs := succeedTxs m1 + 1\<rparr>)
           in Inr \<lparr>tallyMetrics = m2,
                   totalGasPrice = totalGasPrice a + EffectiveGasPrice r,
                   totalTxCount = totalTxCount a + 1,
                   totalTimeToInclude = timeToInclude bs r tx (totalTimeToInclude a)\<rparr>))"

fun tallyTxs :: "Block list \<Rightarrow> Transaction list \<Rightarrow> tally \<Rightarrow> failure + tally" where
  "tallyTxs bs [] a = Inr a"
| "tallyTxs bs (tx # txs) a =
     (case tallyTx bs tx a of Inl e \<Rightarrow> Inl e | Inr a' \<Rightarrow> tallyTxs bs txs a')"

fun tallySenders :: "Block list \<Rightarrow> txmap \<Rightarrow> tally \<Rightarrow> failure + tally" where
  "tallySenders bs [] a = Inr a"
| "tallySenders bs ((senderAddress, senderTxs) # rest) a =
     (case tallyTxs bs senderTxs a of Inl e \<Rightarrow> Inl e | Inr a' \<Rightarrow> tallySenders bs rest a')"

definition blockAverages :: "Block list \<Rightarrow> Metrics \<Rightarrow> failure + Metrics" where
  "blockAverages bs m =
     (let txCount = sum_list (map (\<lambda>block. int (TransactionsLen block)) bs);
          gasUsed = fold (\<lambda>block acc. acc + GasUsed block) bs 0
      in if length bs \<noteq> 0 then
           (case int_quo txCount (int (length bs)) of
              Inl e \<Rightarrow> Inl e
            | Inr q \<Rightarrow>
                (case uint_quo gasUsed (of_nat (length bs)) of
                   Inl e \<Rightarrow> Inl e
                 | Inr g \<Rightarrow> Inr (m\<lparr>avgTxsPerBlock := word_of_int q, avgGasUsedPerBlock := g\<rparr>)))
         else Inr m)"

definition artifactAverages :: "tally \<Rightarrow> failure + Metrics" where
  "artifactAverages a =
     (if totalTxCount a \<noteq> 0 then
        (case uint_quo (totalTimeToInclude a) (word_of_int (totalTxCount a)) of
           Inl e \<Rightarrow> Inl e
         | Inr avgTime \<Rightarrow>
             (case big_Div (totalGasPrice a) (totalTxCount a) of
                Inl e \<Rightarrow> Inl e
              | Inr price \<Rightarrow>
                  Inr ((tallyMetrics a)\<lparr>avgTimeToInclude := avgTime,
                         avgGasPricePerTx := big_Uint64 price\<rparr>)))
      else Inr (tallyMetrics a))"

definition newMetrics :: "Test \<Rightarrow> Metrics" where
  "newMetrics t =
     \<lparr>configTps = word_of_int (tps t), realTps = 0, avgTxsPerBlock = 0,
      avgTxsBlockDiffIncluded = Map.empty, avgTimeToInclude = 0, avgGasPricePerTx = 0,
      avgGasUsedPerBlock = 0, succeedTxs = 0, failedTxs = 0\<rparr>"

definition CollectMetrics :: "Test \<Rightarrow> failure + Test" where
  "CollectMetrics t =
     (case blockAverages (blocks t) (newMetrics t) of
        Inl e \<Rightarrow> Inl e
      | Inr m \<Rightarrow>
          (case tallySenders (blocks t)
                  (case senderTransactions t of None \<Rightarrow> [] | Some al \<Rightarrow> al)
                  \<lparr>tallyMetrics = m, totalGasPrice = 0, totalTxCount = 0,
                   totalTimeToInclude = 0\<rparr> of
             Inl e \<Rightarrow> Inl e
           | Inr a \<Rightarrow>
               (case artifactAverages a of
                  Inl e \<Rightarrow> Inl e
                | Inr m' \<Rightarrow> Inr (t\<lparr>metrics := Some m'\<rparr>))))"

text \<open>
  Two readings of a map of artifacts for the statements about the metrics: whether
  every artifact has its receipt, and how many have.
\<close>

definition allResolved :: "txmap option \<Rightarrow> bool" where
  "allResolved m =
     (case m of
        None \<Rightarrow> True
      | Some al \<Rightarrow> list_all (\<lambda>e. list_all (\<lambda>tx. receipt tx \<noteq> None) (snd e)) al)"

definition resolvedCount :: "txmap option \<Rightarrow> nat" where
  "resolvedCount m =
     (case m of
        None \<Rightarrow> 0
      | Some al \<Rightarrow>
          sum_list (map (\<lambda>e. length (filter (\<lambda>tx. receipt tx \<noteq> None) (snd e))) al))"

text \<open>The histogram keys of the resolved artifacts of a list.\<close>

definition keysOf :: "Transaction list \<Rightarrow> uint64 set" where
  "keysOf txs = {histKey r tx | r tx. tx \<in> set txs \<and> receipt tx = Some r}"

text \<open>The four averages of the metrics are the same in two states of the loop.\<close>

definition sameAverages :: "tally \<Rightarrow> tally \<Rightarrow> bool" where
  "sameAverages a a' =
     (avgTimeToInclude (tallyMetrics a') = avgTimeToInclude (tallyMetrics a)
      \<and> avgGasPricePerTx (tallyMetrics a') = avgGasPricePerTx (tallyMetrics a)
      \<and> avgTxsPerBlock (tallyMetrics a') = avgTxsPerBlock (tallyMetrics a)
      \<and> avgGasUsedPerBlock (tallyMetrics a') = avgGasUsedPerBlock (tallyMetrics a))"

section \<open>The runner (\<open>Runner\<close>)\<close>

text \<open>
  \<open>Config.Tests\<close> is a Go map from test name to test: the list gives its entries in the
  order the loop of one run visits them (Go does not specify it). The field \<open>Senders\<close>
  of \<open>Config\<close> is \<open>ConfigSenders\<close> here. The field \<open>senders\<close> of \<open>Runner\<close> is a
  slice built by \<open>append\<close>: \<open>runnerSenders\<close> holds its elements and \<open>sendersSpare\<close>
  is the room \<open>append\<close> left behind them, \<open>cap(r.senders) - len(r.senders)\<close>, whose
  elements are nil.
\<close>

record NodeConfig =
  RPCURL :: string
  ChainID :: int

record AppConfig =
  Node :: NodeConfig

record SendersConfig =
  PrivateKeys :: "string list"

record Config =
  App :: AppConfig
  Tests :: "(string \<times> TestEntity) list"
  ConfigSenders :: SendersConfig







subsection \<open>The rows of the block-distance table (\<open>getSendOutputData\<close>)\<close>

text \<open>
  The loop \<open>for len(processedBlocks) != len(test.metrics.avgTxsBlockDiffIncluded)\<close>
  with the counter \<open>i\<close>, a \<open>uint64\<close>. A row is the distance \<open>i\<close> and the count printed
  for it (\<open>int(count)\<close>). The loop has no bound of its own, so it is a partial function:
  \<open>None\<close> stands for a loop that does not end.
\<close>

partial_function (option) dataBlocksLoop ::
  "(uint64 \<rightharpoonup> uint64) \<Rightarrow> uint64 \<Rightarrow> uint64 set \<Rightarrow> (uint64 \<times> int) list \<Rightarrow>
   (uint64 \<times> int) list option" where
  "dataBlocksLoop h i processedBlocks dataBlocks =
     (if card processedBlocks \<noteq> card (dom h) then
        (case h i of
           Some n \<Rightarrow>
             dataBlocksLoop h (i + 1) (insert i processedBlocks) (dataBlocks @ [(i, sint n)])
         | None \<Rightarrow>
             dataBlocksLoop h (i + 1) processedBlocks (dataBlocks @ [(i, 0)]))
      else Some dataBlocks)"

text \<open>The row the loop appends for the distance \<open>i\<close>.\<close>

definition blockRow :: "(uint64 \<rightharpoonup> uint64) \<Rightarrow> uint64 \<Rightarrow> uint64 \<times> int" where
  "blockRow h i = (i, case h i of None \<Rightarrow> 0 | Some n \<Rightarrow> sint n)"

definition getSendOutputData :: "Metrics \<Rightarrow> (uint64 \<times> int) list option" where
  "getSendOutputData m = dataBlocksLoop (avgTxsBlockDiffIncluded m) 0 {} []"

section \<open>Concrete inputs\<close>

text \<open>
  A node that answers every request of a build, a sender whose nonce is \<open>n\<close>, and the
  artifact a successful build of that sender returns for a plain transfer of value 0.
\<close>

definition exReply :: build_reply where
  "exReply = \<lparr>SuggestGasTipCap = Some 1, SuggestGasPrice = Some 2,
     EstimateGas = Some 21000, SignTx = True\<rparr>"

definition exAddress :: Address where
  "exAddress = replicate 20 1"

definition exSender :: "uint64 \<Rightarrow> Sender" where
  "exSender n = \<lparr>Address = exAddress, PrivateKey = ''k'', Nonce = n\<rparr>"

definition exCall :: build_call where
  "exCall = (exReply, exAddress, 0, [])"

definition exTx :: "uint64 \<Rightarrow> Transaction" where
  "exTx n =
     \<lparr>clientTransaction = Some \<lparr>tx_Nonce = n, tx_To = exAddress, tx_Value = 0,
        tx_GasFeeCap = 2, tx_GasTipCap = 1, tx_Data = [], tx_Gas = 21000\<rparr>,
      receipt = None, txSender = exAddress, status = False, sentBlock = 0,
      minedBlock = 0, sentTimestamp = 0\<rparr>"

text \<open>
  A second sender with another address, a node that answers every build of every
  sender, an ABI library that is never asked (the tests below target no contract), and
  a send test with the given number of senders, rate, duration and value string.
\<close>

definition exAddressB :: Address where
  "exAddressB = replicate 20 2"

definition exSenderB :: "uint64 \<Rightarrow> Sender" where
  "exSenderB n = \<lparr>Address = exAddressB, PrivateKey = ''kB'', Nonce = n\<rparr>"

definition exTxB :: "uint64 \<Rightarrow> Transaction" where
  "exTxB n =
     \<lparr>clientTransaction = Some \<lparr>tx_Nonce = n, tx_To = exAddressB, tx_Value = 0,
        tx_GasFeeCap = 2, tx_GasTipCap = 1, tx_Data = [], tx_Gas = 21000\<rparr>,
      receipt = None, txSender = exAddressB, status = False, sentBlock = 0,
      minedBlock = 0, sentTimestamp = 0\<rparr>"

definition exBuildNode :: "nat \<Rightarrow> nat \<Rightarrow> build_reply" where
  "exBuildNode pos j = exReply"

definition exLib :: abi_lib where
  "exLib = \<lparr>JSON = (\<lambda>s. None), Pack = (\<lambda>parsed method args. None)\<rparr>"

definition exEntity :: "int \<Rightarrow> int \<Rightarrow> int \<Rightarrow> string \<Rightarrow> TestEntity" where
  "exEntity n rate seconds v =
     \<lparr>Type = SEND,
      Config = \<lparr>Senders = n, Duration = seconds, TPS = rate,
        Contract = \<lparr>ContractAddress = [], Function = \<lparr>Name = [], ABI = [], Params = []\<rparr>\<rparr>,
        DataSize = 0, cfg_value = v\<rparr>\<rparr>"

text \<open>
  Two receipts, the block of the second, a node that answers every receipt request
  with the second receipt, and a node that never has a receipt.
\<close>

definition exReceiptA :: Receipt where
  "exReceiptA = \<lparr>BlockNumber = 10, BlockHash = ''a'', EffectiveGasPrice = 7, Status = 1\<rparr>"

definition exReceiptB :: Receipt where
  "exReceiptB = \<lparr>BlockNumber = 11, BlockHash = ''b'', EffectiveGasPrice = 9, Status = 1\<rparr>"

definition exBlock :: Block where
  "exBlock = \<lparr>Number = 11, TransactionsLen = 1, GasUsed = 21000, Time = 100\<rparr>"

definition exNode :: collect_node where
  "exNode = \<lparr>TransactionReceipt = (\<lambda>a attempts txIndex. Some exReceiptB),
     BlockByHash = (\<lambda>h. Some exBlock)\<rparr>"

definition exSilentNode :: collect_node where
  "exSilentNode = \<lparr>TransactionReceipt = (\<lambda>a attempts txIndex. None),
     BlockByHash = (\<lambda>h. None)\<rparr>"

definition exCollect :: collect_state where
  "exCollect = \<lparr>collectedTxCount = 0, blockHashes = [], totalCollectedTxCount = 0\<rparr>"

text \<open>A send test of one sender holding the given artifacts.\<close>

definition exTest :: "Transaction list \<Rightarrow> Test" where
  "exTest txs =
     (NewTest 1 ''t'' (exEntity 1 2 1 []))
       \<lparr>senders := [0], senderTransactions := Some [(exAddress, txs)]\<rparr>"

text \<open>
  An artifact submitted when the node was at block 12 and included, by its receipt, in
  block 11.
\<close>

definition exEarlyTx :: Transaction where
  "exEarlyTx = (exTx 5)\<lparr>receipt := Some exReceiptB, sentBlock := 12\<rparr>"

text \<open>The metrics of a test holding that artifact alone; the key \<open>- 1\<close> is \<open>2^64 - 1\<close>.\<close>

definition exEarlyMetrics :: Metrics where
  "exEarlyMetrics =
     \<lparr>configTps = 2, realTps = 0, avgTxsPerBlock = 0,
      avgTxsBlockDiffIncluded = [- 1 \<mapsto> 1], avgTimeToInclude = 0,
      avgGasPricePerTx = 9, avgGasUsedPerBlock = 0, succeedTxs = 1, failedTxs = 0\<rparr>"


section \<open>Parameter coercion\<close>

lemma scanDigits_Some: "(\<exists>v. scanDigits acc s = Some v) = list_all isDigit s"
  by (induction s arbitrary: acc) auto

lemma scanNat_Some: "(\<exists>v. scanNat s = Some v) = (s \<noteq> [] \<and> list_all isDigit s)"
  by (simp add: scanNat_def scanDigits_Some)

lemma sign_not_digit: "\<not> isDigit CHR ''+''" "\<not> isDigit CHR ''-''"
  by (simp_all add: isDigit_def)

lemma SetString10_Some: "(\<exists>v. SetString10 s = Some v) = isBase10 s"
proof (cases s)
  case Nil
  then show ?thesis by (simp add: SetString10_def isBase10_def)
next
  case (Cons c cs)
  consider (minus) "c = CHR ''-''" | (plus) "c = CHR ''+''"
    | (other) "c \<noteq> CHR ''-''" "c \<noteq> CHR ''+''"
    by blast
  then show ?thesis
  proof cases
    case minus
    then show ?thesis using Cons sign_not_digit scanNat_Some [of cs]
      by (auto simp: SetString10_def isBase10_def)
  next
    case plus
    then show ?thesis using Cons sign_not_digit scanNat_Some [of cs]
      by (auto simp: SetString10_def isBase10_def)
  next
    case other
    then show ?thesis using Cons scanNat_Some [of s]
      by (auto simp: SetString10_def isBase10_def)
  qed
qed

lemma SetString10_100: "SetString10 ''100'' = Some 100"
  by (simp add: SetString10_def scanNat_def isDigit_def digitVal_def)

lemma SetString10_notanumber: "SetString10 ''notanumber'' = None"
  by (simp add: SetString10_def scanNat_def isDigit_def)

lemma integer_param_accepts:
  "(\<exists>v. convertParam i UintTy p = Inr v) = (\<exists>s. p = YString s \<and> isBase10 s)"
  "(\<exists>v. convertParam i IntTy p = Inr v) = (\<exists>s. p = YString s \<and> isBase10 s)"
  using SetString10_Some
  by (cases p; fastforce split: option.splits)+

text \<open>
  C5. For a function that expects \<open>(address, uint256)\<close>, the arguments
  \<open>["0xabc...", "100"]\<close> convert into an address value and the integer 100; the
  arguments \<open>["0xabc...", "notanumber"]\<close> fail with the conversion error of an integer
  parameter, which names position 1; and an integer-typed argument (\<open>uint\<close> or \<open>int\<close>)
  converts exactly when it is a string holding a base-10 numeral.
\<close>

theorem convertParams_address_uint256:
  "convertParams [AddressTy, UintTy] [YString a, YString ''100'']
     = Inr [VAddress (HexToAddress a), VBigInt 100]
   \<and> convertParams [AddressTy, UintTy] [YString a, YString ''notanumber'']
     = Inl (InvalidUint256Value 1 ''notanumber'')
   \<and> ((\<exists>v. convertParam i UintTy p = Inr v) = (\<exists>s. p = YString s \<and> isBase10 s))
   \<and> ((\<exists>v. convertParam i IntTy p = Inr v) = (\<exists>s. p = YString s \<and> isBase10 s))"
  using integer_param_accepts [of i p]
  by (simp add: convertParams_def SetString10_100 SetString10_notanumber)

theorem convertParams_address_uint256_witness:
  "convertParams [AddressTy, UintTy] [YString ''0xabc'', YString ''100'']
     = Inr [VAddress [0, 0, 0, 0, 0, 0, 0, 0, 0, 0, 0, 0, 0, 0, 0, 0, 0, 0, 10, 188],
            VBigInt 100]
   \<and> convertParams [AddressTy, UintTy] [YString ''0xabc'', YString ''notanumber'']
     = Inl (InvalidUint256Value 1 ''notanumber'')
   \<and> (\<exists>v. convertParam 1 UintTy (YString ''-42'') = Inr v)
   \<and> \<not> (\<exists>v. convertParam 1 UintTy (YInt 100) = Inr v)"
proof -
  have addr: "HexToAddress ''0xabc''
      = [0, 0, 0, 0, 0, 0, 0, 0, 0, 0, 0, 0, 0, 0, 0, 0, 0, 0, 10, 188]"
    by code_simp
  have "isBase10 ''-42''"
    unfolding isBase10_def by (rule exI [of _ "''42''"]) (simp add: isDigit_def)
  with convertParams_address_uint256 [of "''0xabc''" 1 "YString ''-42''"]
    convertParams_address_uint256 [of "''0xabc''" 1 "YInt 100"] addr
  show ?thesis by simp
qed

section \<open>Sequence numbers\<close>

lemma CreateAndSignTransaction_Inr:
  assumes "CreateAndSignTransaction node s receiver v data = Inr (tx, s')"
  shows "Nonce s' = Nonce s + 1"
    and "Address s' = Address s"
    and "receipt tx = None"
    and "clientTransaction tx = Some d \<Longrightarrow> tx_Nonce d = Nonce s \<and> tx_Value d = v"
    and "SignTx node \<Longrightarrow> clientTransaction tx \<noteq> None"
  using assms
  by (auto simp: CreateAndSignTransaction_def Let_def split: option.splits if_splits)

lemma buildAll_Cons_Inr:
  assumes "buildAll (c # calls) s = Inr (txs, s')"
  obtains tx s1 txs1 where
    "CreateAndSignTransaction (fst c) s (fst (snd c)) (fst (snd (snd c))) (snd (snd (snd c)))
       = Inr (tx, s1)"
    "buildAll calls s1 = Inr (txs1, s')" "txs = tx # txs1"
  using assms by (cases c) (auto split: sum.splits prod.splits)

lemma buildAll_length:
  "buildAll calls s = Inr (txs, s') \<Longrightarrow> length txs = length calls"
proof (induction calls arbitrary: s txs)
  case Nil
  then show ?case by simp
next
  case (Cons c calls)
  from Cons.prems obtain tx s1 txs1 where
    "buildAll calls s1 = Inr (txs1, s')" "txs = tx # txs1"
    by (rule buildAll_Cons_Inr)
  with Cons.IH show ?case by auto
qed

lemma nonces_Cons:
  "nonces (tx # txs) =
     (case clientTransaction tx of None \<Rightarrow> nonces txs | Some d \<Rightarrow> tx_Nonce d # nonces txs)"
  by (simp add: nonces_def List.map_filter_simps split: option.splits)

lemma nonces_Nil: "nonces [] = []"
  by (simp add: nonces_def List.map_filter_simps)

lemma buildAll_nonces_range:
  "buildAll calls s = Inr (txs, s') \<Longrightarrow> unat (Nonce s) + length calls \<le> 2 ^ 64 \<Longrightarrow>
   sorted_wrt (<) (nonces txs) \<and>
   (\<forall>n \<in> set (nonces txs). unat (Nonce s) \<le> unat n \<and> unat n < unat (Nonce s) + length calls)"
proof (induction calls arbitrary: s txs)
  case Nil
  then show ?case by (simp add: nonces_Nil)
next
  case (Cons c calls)
  from Cons.prems(1) obtain tx s1 txs1 where
    step: "CreateAndSignTransaction (fst c) s (fst (snd c)) (fst (snd (snd c)))
             (snd (snd (snd c))) = Inr (tx, s1)" and
    rest: "buildAll calls s1 = Inr (txs1, s')" and txs: "txs = tx # txs1"
    by (rule buildAll_Cons_Inr)
  have s1: "Nonce s1 = Nonce s + 1"
    by (rule CreateAndSignTransaction_Inr(1) [OF step])
  show ?case
  proof (cases "calls = []")
    case True
    with rest have "txs1 = []" by simp
    with txs True show ?thesis
      using CreateAndSignTransaction_Inr(4) [OF step]
      by (auto simp: nonces_Cons nonces_Nil split: option.splits)
  next
    case False
    with Cons.prems(2) have "unat (Nonce s) + 1 < 2 ^ 64"
      by (cases calls) auto
    then have u1: "unat (Nonce s1) = unat (Nonce s) + 1"
      unfolding s1 by (simp add: unat_word_ariths)
    with Cons.prems(2) have "unat (Nonce s1) + length calls \<le> 2 ^ 64" by simp
    from Cons.IH [OF rest this] have
      IH1: "sorted_wrt (<) (nonces txs1)" and
      IH2: "\<forall>n \<in> set (nonces txs1).
              unat (Nonce s1) \<le> unat n \<and> unat n < unat (Nonce s1) + length calls"
      by simp_all
    show ?thesis
    proof (cases "clientTransaction tx")
      case None
      with IH1 IH2 u1 txs show ?thesis by (auto simp: nonces_Cons)
    next
      case (Some d)
      with CreateAndSignTransaction_Inr(4) [OF step] have "tx_Nonce d = Nonce s" by simp
      moreover from IH2 u1 have "\<forall>n \<in> set (nonces txs1). Nonce s < n"
        by (auto simp: word_less_nat_alt)
      ultimately show ?thesis using Some IH1 IH2 u1 txs
        by (auto simp: nonces_Cons)
    qed
  qed
qed

lemma of_nat_uint64_nonzero:
  "0 < n \<Longrightarrow> n < 2 ^ 64 \<Longrightarrow> (of_nat n :: uint64) \<noteq> 0"
proof -
  assume "0 < n" "n < 2 ^ 64"
  then have "\<not> (2 :: nat) ^ 64 dvd n"
    using dvd_imp_le [of "2 ^ 64" n] by auto
  then show ?thesis by (simp add: word_of_nat_eq_0_iff)
qed

lemma buildAll_nonces_set:
  "buildAll calls s = Inr (txs, s') \<Longrightarrow>
   set (nonces txs) \<subseteq> (\<lambda>k. Nonce s + of_nat k) ` {0..<length calls}"
proof (induction calls arbitrary: s txs)
  case Nil
  then show ?case by (simp add: nonces_Nil)
next
  case (Cons c calls)
  from Cons.prems obtain tx s1 txs1 where
    step: "CreateAndSignTransaction (fst c) s (fst (snd c)) (fst (snd (snd c)))
             (snd (snd (snd c))) = Inr (tx, s1)" and
    rest: "buildAll calls s1 = Inr (txs1, s')" and txs: "txs = tx # txs1"
    by (rule buildAll_Cons_Inr)
  have s1: "Nonce s1 = Nonce s + 1"
    by (rule CreateAndSignTransaction_Inr(1) [OF step])
  have tail: "n \<in> (\<lambda>k. Nonce s + of_nat k) ` {0..<length (c # calls)}"
    if "n \<in> set (nonces txs1)" for n
  proof -
    from Cons.IH [OF rest] that obtain k where
      k: "k < length calls" "n = Nonce s1 + of_nat k" by auto
    then have "n = Nonce s + of_nat (Suc k)" "Suc k \<in> {0..<length (c # calls)}"
      by (simp_all add: s1)
    then show ?thesis by (metis imageI)
  qed
  have head: "Nonce s \<in> (\<lambda>k. Nonce s + of_nat k) ` {0..<length (c # calls)}"
    by (rule image_eqI [where x = 0]) simp_all
  show ?case
  proof (cases "clientTransaction tx")
    case None
    with txs tail show ?thesis by (auto simp: nonces_Cons)
  next
    case (Some d)
    with CreateAndSignTransaction_Inr(4) [OF step] have "tx_Nonce d = Nonce s" by simp
    with Some txs tail head show ?thesis by (auto simp: nonces_Cons)
  qed
qed

text \<open>
  Fewer than \<open>2^64\<close> increments do not bring the counter back to a value it had, so
  the nonces of at most \<open>2^64\<close> builds are pairwise different, wherever they start.
\<close>

lemma buildAll_nonces_distinct:
  "buildAll calls s = Inr (txs, s') \<Longrightarrow> length calls \<le> 2 ^ 64 \<Longrightarrow> distinct (nonces txs)"
proof (induction calls arbitrary: s txs)
  case Nil
  then show ?case by (simp add: nonces_Nil)
next
  case (Cons c calls)
  from Cons.prems(1) obtain tx s1 txs1 where
    step: "CreateAndSignTransaction (fst c) s (fst (snd c)) (fst (snd (snd c)))
             (snd (snd (snd c))) = Inr (tx, s1)" and
    rest: "buildAll calls s1 = Inr (txs1, s')" and txs: "txs = tx # txs1"
    by (rule buildAll_Cons_Inr)
  have s1: "Nonce s1 = Nonce s + 1"
    by (rule CreateAndSignTransaction_Inr(1) [OF step])
  from Cons.prems(2) have len: "length calls < 2 ^ 64" by simp
  then have IH: "distinct (nonces txs1)"
    using Cons.IH [OF rest] by simp
  have fresh: "Nonce s \<notin> set (nonces txs1)"
  proof
    assume "Nonce s \<in> set (nonces txs1)"
    with buildAll_nonces_set [OF rest] obtain k where
      k: "k < length calls" "Nonce s = Nonce s1 + of_nat k" by auto
    then have "Nonce s = Nonce s + of_nat (Suc k)" by (simp add: s1)
    then have "(of_nat (Suc k) :: uint64) = 0" by simp
    moreover from k(1) len have "(of_nat (Suc k) :: uint64) \<noteq> 0"
      by (intro of_nat_uint64_nonzero) simp_all
    ultimately show False by simp
  qed
  show ?case
  proof (cases "clientTransaction tx")
    case None
    with txs IH show ?thesis by (simp add: nonces_Cons)
  next
    case (Some d)
    with CreateAndSignTransaction_Inr(4) [OF step] have "tx_Nonce d = Nonce s" by simp
    with Some txs IH fresh show ?thesis by (simp add: nonces_Cons)
  qed
qed

lemma upt_Suc_shift: "map f [0..<Suc m] = f 0 # map (\<lambda>k. f (Suc k)) [0..<m]"
  by (simp add: upt_conv_Cons map_Suc_upt [symmetric] del: upt_Suc)

lemma buildAll_all_signed:
  "buildAll calls s = Inr (txs, s') \<Longrightarrow> list_all (\<lambda>c. SignTx (fst c)) calls \<Longrightarrow>
   nonces txs = map (\<lambda>k. Nonce s + of_nat k) [0..<length calls]"
proof (induction calls arbitrary: s txs)
  case Nil
  then show ?case by (simp add: nonces_Nil)
next
  case (Cons c calls)
  from Cons.prems(1) obtain tx s1 txs1 where
    step: "CreateAndSignTransaction (fst c) s (fst (snd c)) (fst (snd (snd c)))
             (snd (snd (snd c))) = Inr (tx, s1)" and
    rest: "buildAll calls s1 = Inr (txs1, s')" and txs: "txs = tx # txs1"
    by (rule buildAll_Cons_Inr)
  from Cons.prems(2) have sig: "SignTx (fst c)" and all: "list_all (\<lambda>c. SignTx (fst c)) calls"
    by simp_all
  from CreateAndSignTransaction_Inr(5) [OF step sig] obtain d where
    d: "clientTransaction tx = Some d" by auto
  with CreateAndSignTransaction_Inr(4) [OF step] have "tx_Nonce d = Nonce s" by simp
  moreover from Cons.IH [OF rest all] CreateAndSignTransaction_Inr(1) [OF step]
  have "nonces txs1 = map (\<lambda>k. Nonce s + of_nat (Suc k)) [0..<length calls]"
    by (simp add: add.assoc add.commute)
  ultimately show ?case using d txs
    by (simp add: nonces_Cons upt_Suc_shift del: upt_Suc)
qed

text \<open>
  C2, as amended. The sequence number is a \<open>uint64\<close>. For an identity whose nonce was
  set from the node's pending nonce \<open>initialSequence\<close>: when every signing succeeds,
  every build yields a signed artifact, and the \<open>k\<close>-th of them (counted from 0)
  carries the nonce \<open>initialSequence + k\<close> in \<open>uint64\<close> arithmetic, that is modulo
  \<open>2^64\<close>, so there is no gap; it is the number \<open>initialSequence + k\<close> as long as
  \<open>initialSequence\<close> plus the number of builds does not pass \<open>2^64\<close>. In that range
  the nonces of the signed artifacts are strictly increasing. And no two signed
  artifacts of the identity share a nonce as long as at most \<open>2^64\<close> are built, wherever
  the sequence starts.
\<close>

theorem nonce_sequence:
  assumes "defineCurrentSenderNonce (Some initialSequence) s = Inr s0"
    and "buildAll calls s0 = Inr (txs, s')"
  shows "(list_all (\<lambda>c. SignTx (fst c)) calls \<longrightarrow>
            length txs = length calls
          \<and> length (nonces txs) = length calls
          \<and> (\<forall>k < length (nonces txs). nonces txs ! k = initialSequence + of_nat k)
          \<and> (unat initialSequence + length calls \<le> 2 ^ 64 \<longrightarrow>
               (\<forall>k < length (nonces txs). unat (nonces txs ! k) = unat initialSequence + k)))
    \<and> (unat initialSequence + length calls \<le> 2 ^ 64 \<longrightarrow> sorted_wrt (<) (nonces txs))
    \<and> (length calls \<le> 2 ^ 64 \<longrightarrow> distinct (nonces txs))"
proof -
  from assms(1) have n0: "Nonce s0 = initialSequence"
    by (auto simp: defineCurrentSenderNonce_def)
  have built: "length txs = length calls"
    by (rule buildAll_length [OF assms(2)])
  have all: "nonces txs = map (\<lambda>k. initialSequence + of_nat k) [0..<length calls]"
    if "list_all (\<lambda>c. SignTx (fst c)) calls"
    using buildAll_all_signed [OF assms(2) that] n0 by simp
  have len: "length (nonces txs) = length calls"
    if "list_all (\<lambda>c. SignTx (fst c)) calls"
    using all [OF that] by simp
  have kth: "nonces txs ! k = initialSequence + of_nat k"
    if "list_all (\<lambda>c. SignTx (fst c)) calls" "k < length (nonces txs)" for k
    using all [OF that(1)] that(2) len [OF that(1)] by simp
  have exact: "unat (nonces txs ! k) = unat initialSequence + k"
    if sig: "list_all (\<lambda>c. SignTx (fst c)) calls"
      and bound: "unat initialSequence + length calls \<le> 2 ^ 64"
      and k: "k < length (nonces txs)" for k
  proof -
    from bound k len [OF sig] have "unat initialSequence + k < 2 ^ 64" by simp
    then show ?thesis
      unfolding kth [OF sig k] by (simp add: unat_word_ariths unat_of_nat)
  qed
  have sorted: "sorted_wrt (<) (nonces txs)"
    if "unat initialSequence + length calls \<le> 2 ^ 64"
    using buildAll_nonces_range [OF assms(2)] that n0 by simp
  have dist: "distinct (nonces txs)" if "length calls \<le> 2 ^ 64"
    using buildAll_nonces_distinct [OF assms(2) that] .
  show ?thesis
    using built len kth exact sorted dist by blast
qed

theorem nonce_sequence_witness:
  "defineCurrentSenderNonce (Some 5) (exSender 0) = Inr (exSender 5)
   \<and> buildAll [exCall, exCall] (exSender 5) = Inr ([exTx 5, exTx 6], exSender 7)
   \<and> list_all (\<lambda>c. SignTx (fst c)) [exCall, exCall]
   \<and> unat (5 :: uint64) + length [exCall, exCall] \<le> 2 ^ 64
   \<and> nonces [exTx 5, exTx 6] = [5, 6]
   \<and> sorted_wrt (<) (nonces [exTx 5, exTx 6])
   \<and> distinct (nonces [exTx 5, exTx 6])"
proof -
  have a: "defineCurrentSenderNonce (Some 5) (exSender 0) = Inr (exSender 5)"
    by (simp add: defineCurrentSenderNonce_def exSender_def)
  have b: "buildAll [exCall, exCall] (exSender 5) = Inr ([exTx 5, exTx 6], exSender 7)"
    by (simp add: exCall_def exSender_def exTx_def exReply_def
        CreateAndSignTransaction_def)
  have c: "list_all (\<lambda>c. SignTx (fst c)) [exCall, exCall]"
    by (simp add: exCall_def exReply_def)
  have d: "unat (5 :: uint64) + length [exCall, exCall] \<le> 2 ^ 64"
    by simp
  have e: "length [exCall, exCall] \<le> 2 ^ 64" by simp
  have f: "nonces [exTx 5, exTx 6] = [5, 6]"
    by (simp add: nonces_def List.map_filter_simps exTx_def)
  from nonce_sequence [OF a b] c d e a b f show ?thesis
    by simp
qed

text \<open>
  The claim as stated fails where the counter wraps: from the pending nonce
  \<open>2^64 - 1\<close> two builds yield the nonces \<open>2^64 - 1\<close> and \<open>0\<close>, and the second is not
  greater than the first.
\<close>

theorem nonce_sequence_counterexample:
  "defineCurrentSenderNonce (Some 18446744073709551615) (exSender 0)
     = Inr (exSender 18446744073709551615)
   \<and> buildAll [exCall, exCall] (exSender 18446744073709551615)
     = Inr ([exTx 18446744073709551615, exTx 0], exSender 1)
   \<and> map unat (nonces [exTx 18446744073709551615, exTx 0]) = [18446744073709551615, 0]
   \<and> \<not> sorted_wrt (<) (nonces [exTx 18446744073709551615, exTx 0])"
  by (simp add: defineCurrentSenderNonce_def exCall_def exSender_def exTx_def exReply_def
      CreateAndSignTransaction_def nonces_def List.map_filter_simps)

text \<open>
  C3. The claim has a signing failure fatal, with no signed artifact and the nonce not
  advanced. In the code, when the node answers the three estimation requests and
  \<open>types.SignTx\<close> fails, \<open>CreateAndSignTransaction\<close> returns normally: an artifact
  whose signed transaction is nil, and the sender with its nonce advanced from 7 to 8.
  And no call returns a Go error, so the caller's error branch is never taken.
\<close>

theorem signing_failure_consumes_nonce:
  "CreateAndSignTransaction (exReply\<lparr>SignTx := False\<rparr>) (exSender 7) exAddress 0 []
     = Inr (\<lparr>clientTransaction = None, receipt = None, txSender = exAddress,
              status = False, sentBlock = 0, minedBlock = 0, sentTimestamp = 0\<rparr>,
            exSender 8)
   \<and> CreateAndSignTransaction node s receiver v data \<noteq> Inl (Error e)"
  by (simp add: CreateAndSignTransaction_def exReply_def exSender_def Let_def
      split: option.splits)

section \<open>Signing the transactions of a test\<close>

lemma lookupTxs_update:
  "lookupTxs (Some (AList.update a x al)) b = (if b = a then x else lookupTxs (Some al) b)"
  by (simp add: lookupTxs_def update_conv')

lemma count_update:
  "sum_list (map (\<lambda>e. length (snd e)) (AList.update a (lookupTxs (Some al) a @ [tx]) al))
   = Suc (sum_list (map (\<lambda>e. length (snd e)) al))"
  by (induction al) (auto simp: lookupTxs_def)

lemma signLoop_Some:
  "signLoop node receiver v data p j n (store, Some al) = Inr (store', m') \<Longrightarrow>
   p < length store \<Longrightarrow>
   \<exists>al' new. m' = Some al'
     \<and> map Address store' = map Address store
     \<and> length new = n
     \<and> (\<forall>b. lookupTxs (Some al') b =
            (if b = Address (store ! p) then lookupTxs (Some al) b @ new
             else lookupTxs (Some al) b))
     \<and> artifactCount (Some al') = artifactCount (Some al) + n
     \<and> (\<forall>tx d. tx \<in> set new \<and> clientTransaction tx = Some d \<longrightarrow> tx_Value d = v)"
proof (induction n arbitrary: j store al)
  case 0
  then show ?case by auto
next
  case (Suc n)
  let ?a = "Address (store ! p)"
  from Suc.prems(1) obtain signedTx sender' where
    step: "CreateAndSignTransaction (node j) (store ! p) receiver v data = Inr (signedTx, sender')"
    and rest: "signLoop node receiver v data p (Suc j) n
       (store[p := sender'], Some (AList.update ?a (lookupTxs (Some al) ?a @ [signedTx]) al))
       = Inr (store', m')"
    by (auto split: sum.splits failure.splits prod.splits)
  let ?store1 = "store[p := sender']"
  let ?al1 = "AList.update ?a (lookupTxs (Some al) ?a @ [signedTx]) al"
  have addr: "Address sender' = ?a"
    using CreateAndSignTransaction_Inr(2) [OF step] .
  have p1: "p < length ?store1" using Suc.prems(2) by simp
  have a1: "Address (?store1 ! p) = ?a" using Suc.prems(2) addr by simp
  have m1: "map Address ?store1 = map Address store"
    using Suc.prems(2) addr by (simp add: map_update list_update_same_conv)
  from Suc.IH [OF rest p1] obtain al' new where
    m': "m' = Some al'" and
    st: "map Address store' = map Address ?store1" and
    len: "length new = n" and
    oth: "\<forall>b. lookupTxs (Some al') b =
            (if b = ?a then lookupTxs (Some ?al1) b @ new else lookupTxs (Some ?al1) b)" and
    cnt: "artifactCount (Some al') = artifactCount (Some ?al1) + n" and
    val: "\<forall>tx d. tx \<in> set new \<and> clientTransaction tx = Some d \<longrightarrow> tx_Value d = v"
    unfolding a1 by blast
  show ?case
  proof (intro exI conjI)
    show "m' = Some al'" by fact
    show "map Address store' = map Address store" using st m1 by simp
    show "length (signedTx # new) = Suc n" using len by simp
    show "\<forall>b. lookupTxs (Some al') b =
            (if b = ?a then lookupTxs (Some al) b @ signedTx # new else lookupTxs (Some al) b)"
      using oth by (simp add: lookupTxs_update)
    show "artifactCount (Some al') = artifactCount (Some al) + Suc n"
      using cnt by (simp add: artifactCount_def count_update)
    show "\<forall>tx d. tx \<in> set (signedTx # new) \<and> clientTransaction tx = Some d \<longrightarrow> tx_Value d = v"
      using val CreateAndSignTransaction_Inr(4) [OF step] by auto
  qed
qed

text \<open>
  The inner loop of \<open>SignTransactions\<close> for one sender is a sequence of calls as
  \<open>buildAll\<close> runs them, so what holds of the nonces of \<open>buildAll\<close> holds of the
  artifacts the loop appends for that sender.
\<close>

lemma signLoop_buildAll:
  "signLoop node receiver v data p j n (store, Some al) = Inr (store', m') \<Longrightarrow>
   p < length store \<Longrightarrow>
   \<exists>txs s'. buildAll (map (\<lambda>i. (node i, receiver, v, data)) [j..<j + n]) (store ! p)
                = Inr (txs, s')
     \<and> store' = store[p := s']
     \<and> lookupTxs m' (Address (store ! p)) = lookupTxs (Some al) (Address (store ! p)) @ txs"
proof (induction n arbitrary: j store al)
  case 0
  then show ?case by auto
next
  case (Suc n)
  let ?a = "Address (store ! p)"
  from Suc.prems(1) obtain signedTx s1 where
    step: "CreateAndSignTransaction (node j) (store ! p) receiver v data = Inr (signedTx, s1)"
    and rest: "signLoop node receiver v data p (Suc j) n
       (store[p := s1], Some (AList.update ?a (lookupTxs (Some al) ?a @ [signedTx]) al))
       = Inr (store', m')"
    by (auto split: sum.splits failure.splits prod.splits)
  have addr: "Address s1 = ?a"
    using CreateAndSignTransaction_Inr(2) [OF step] .
  have p1: "p < length (store[p := s1])" using Suc.prems(2) by simp
  have at: "store[p := s1] ! p = s1" using Suc.prems(2) by simp
  from Suc.IH [OF rest p1] obtain txs s' where
    b: "buildAll (map (\<lambda>i. (node i, receiver, v, data)) [Suc j..<Suc j + n]) s1 = Inr (txs, s')"
    and st: "store' = store[p := s1, p := s']"
    and lk: "lookupTxs m' ?a
       = lookupTxs (Some (AList.update ?a (lookupTxs (Some al) ?a @ [signedTx]) al)) ?a @ txs"
    unfolding at addr by blast
  have range: "[j..<j + Suc n] = j # [Suc j..<Suc j + n]"
    by (simp add: upt_conv_Cons)
  show ?case
  proof (intro exI conjI)
    show "buildAll (map (\<lambda>i. (node i, receiver, v, data)) [j..<j + Suc n]) (store ! p)
        = Inr (signedTx # txs, s')"
      unfolding range using step b by simp
    show "store' = store[p := s']" using st by simp
    show "lookupTxs m' ?a = lookupTxs (Some al) ?a @ signedTx # txs"
      using lk by (simp add: lookupTxs_update)
  qed
qed

lemma signLoop_None:
  "signLoop node receiver v data p j n (store, None) = Inr (store', m') \<Longrightarrow> n = 0"
  by (cases n) (auto split: sum.splits failure.splits prod.splits)

lemma sendersLoop_Some:
  "sendersLoop node t data n pos ps (store, Some al) = Inr (store', m') \<Longrightarrow>
   \<exists>al'. m' = Some al'
     \<and> map Address store' = map Address store
     \<and> (\<forall>p \<in> set ps. p < length store)
     \<and> (\<forall>b. b \<notin> (\<lambda>p. Address (store ! p)) ` set ps \<longrightarrow> lookupTxs (Some al') b = lookupTxs (Some al) b)
     \<and> (distinct (map (\<lambda>p. Address (store ! p)) ps) \<longrightarrow>
          (\<forall>p \<in> set ps. length (lookupTxs (Some al') (Address (store ! p)))
             = length (lookupTxs (Some al) (Address (store ! p))) + n))
     \<and> artifactCount (Some al') = artifactCount (Some al) + length ps * n
     \<and> (valueInv (test_value t) (Some al) \<longrightarrow> valueInv (test_value t) (Some al'))"
proof (induction ps arbitrary: pos store al)
  case Nil
  then show ?case by auto
next
  case (Cons p ps)
  let ?a = "Address (store ! p)"
  let ?rcv = "if isContract t then HexToAddress (address (contract t)) else ?a"
  from Cons.prems have p: "p < length store"
    by (auto split: if_splits)
  with Cons.prems obtain st1 where
    inner: "signLoop (node pos) ?rcv (test_value t) data p 0 n (store, Some al) = Inr st1" and
    rest: "sendersLoop node t data n (Suc pos) ps st1 = Inr (store', m')"
    by (auto split: sum.splits)
  obtain store1 m1 where st1: "st1 = (store1, m1)" by (cases st1)
  from signLoop_Some [OF inner [unfolded st1] p] obtain al1 new where
    m1: "m1 = Some al1" and
    a1: "map Address store1 = map Address store" and
    len: "length new = n" and
    look: "\<forall>b. lookupTxs (Some al1) b =
            (if b = ?a then lookupTxs (Some al) b @ new else lookupTxs (Some al) b)" and
    cnt: "artifactCount (Some al1) = artifactCount (Some al) + n" and
    val: "\<forall>tx d. tx \<in> set new \<and> clientTransaction tx = Some d \<longrightarrow> tx_Value d = test_value t"
    by blast
  from a1 have lens: "length store1 = length store"
    by (metis length_map)
  have nth: "Address (store1 ! q) = Address (store ! q)" if "q < length store" for q
    using a1 that lens by (metis nth_map)
  from Cons.IH [OF rest [unfolded st1 m1]] obtain al' where
    m': "m' = Some al'" and
    a': "map Address store' = map Address store1" and
    inb: "\<forall>q \<in> set ps. q < length store1" and
    oth: "\<forall>b. b \<notin> (\<lambda>q. Address (store1 ! q)) ` set ps \<longrightarrow>
            lookupTxs (Some al') b = lookupTxs (Some al1) b" and
    per: "distinct (map (\<lambda>q. Address (store1 ! q)) ps) \<longrightarrow>
          (\<forall>q \<in> set ps. length (lookupTxs (Some al') (Address (store1 ! q)))
             = length (lookupTxs (Some al1) (Address (store1 ! q))) + n)" and
    cnt': "artifactCount (Some al') = artifactCount (Some al1) + length ps * n" and
    val': "valueInv (test_value t) (Some al1) \<longrightarrow> valueInv (test_value t) (Some al')"
    by blast
  have img: "(\<lambda>q. Address (store1 ! q)) ` set ps = (\<lambda>q. Address (store ! q)) ` set ps"
    using inb lens nth by (auto simp: image_iff)
  have mp: "map (\<lambda>q. Address (store1 ! q)) ps = map (\<lambda>q. Address (store ! q)) ps"
    using inb lens nth by simp
  show ?case
  proof (intro exI conjI)
    show "m' = Some al'" by fact
    show "map Address store' = map Address store" using a' a1 by simp
    show "\<forall>q \<in> set (p # ps). q < length store" using p inb lens by simp
    show "\<forall>b. b \<notin> (\<lambda>q. Address (store ! q)) ` set (p # ps) \<longrightarrow>
            lookupTxs (Some al') b = lookupTxs (Some al) b"
      using oth look img by auto
    show "distinct (map (\<lambda>q. Address (store ! q)) (p # ps)) \<longrightarrow>
          (\<forall>q \<in> set (p # ps). length (lookupTxs (Some al') (Address (store ! q)))
             = length (lookupTxs (Some al) (Address (store ! q))) + n)"
    proof (intro impI ballI)
      fix q assume d: "distinct (map (\<lambda>q. Address (store ! q)) (p # ps))" and q: "q \<in> set (p # ps)"
      from d have notin: "?a \<notin> (\<lambda>q. Address (store ! q)) ` set ps" and d': "distinct (map (\<lambda>q. Address (store ! q)) ps)"
        by auto
      show "length (lookupTxs (Some al') (Address (store ! q)))
             = length (lookupTxs (Some al) (Address (store ! q))) + n"
      proof (cases "q \<in> set ps")
        case True
        with notin have ne: "Address (store ! q) \<noteq> ?a" by (metis imageI)
        from True per d' mp inb lens nth have
          "length (lookupTxs (Some al') (Address (store ! q))) = length (lookupTxs (Some al1) (Address (store ! q))) + n"
          by auto
        with look ne show ?thesis by simp
      next
        case False
        with q have "q = p" by simp
        with notin oth img look len show ?thesis by simp
      qed
    qed
    show "artifactCount (Some al') = artifactCount (Some al) + length (p # ps) * n"
      using cnt cnt' by simp
    show "valueInv (test_value t) (Some al) \<longrightarrow> valueInv (test_value t) (Some al')"
    proof
      assume "valueInv (test_value t) (Some al)"
      with look val have "valueInv (test_value t) (Some al1)"
        unfolding valueInv_def by auto
      with val' show "valueInv (test_value t) (Some al')" by simp
    qed
  qed
qed

lemma int64_id: "- (2 ^ 63) \<le> x \<Longrightarrow> x < 2 ^ 63 \<Longrightarrow> int64 x = x"
  by (simp add: int64_def signed_take_bit_int_eq_self)

lemma quo_nonneg: "0 \<le> a \<Longrightarrow> 0 < b \<Longrightarrow> quo a b = a div b"
  by (cases "a = 0") (simp_all add: quo_def)

lemma lookupTxs_empty: "lookupTxs (Some []) b = []"
  by (simp add: lookupTxs_def)

lemma SignTransactions_Inr:
  assumes "SignTransactions lib node store t = Inr (store', t')"
    and "senderTransactions t = Some al"
  shows "senders t \<noteq> []"
    and "\<exists>al'. senderTransactions t' = Some al'"
    and "distinct (map (\<lambda>p. Address (store ! p)) (senders t)) \<Longrightarrow> p \<in> set (senders t) \<Longrightarrow>
         length (lookupTxs (senderTransactions t') (Address (store ! p)))
           = length (lookupTxs (Some al) (Address (store ! p)))
             + nat (quo (txsCount t) (int (length (senders t))))"
    and "artifactCount (senderTransactions t')
           = artifactCount (Some al)
             + length (senders t) * nat (quo (txsCount t) (int (length (senders t))))"
    and "valueInv (test_value t) (Some al) \<Longrightarrow> valueInv (test_value t) (senderTransactions t')"
proof -
  from assms(1) show ne: "senders t \<noteq> []"
    by (auto simp: SignTransactions_def split: if_splits)
  let ?n = "nat (quo (txsCount t) (int (length (senders t))))"
  from assms ne obtain data m' where
    loop: "sendersLoop node t data ?n 0 (senders t) (store, Some al) = Inr (store', m')"
    and t': "t' = t\<lparr>senderTransactions := m'\<rparr>"
    by (auto simp: SignTransactions_def Let_def split: if_splits sum.splits prod.splits)
  from sendersLoop_Some [OF loop] obtain al' where
    m': "m' = Some al'" and
    per: "distinct (map (\<lambda>p. Address (store ! p)) (senders t)) \<longrightarrow>
          (\<forall>p \<in> set (senders t). length (lookupTxs (Some al') (Address (store ! p)))
             = length (lookupTxs (Some al) (Address (store ! p))) + ?n)" and
    cnt: "artifactCount (Some al') = artifactCount (Some al) + length (senders t) * ?n" and
    val: "valueInv (test_value t) (Some al) \<longrightarrow> valueInv (test_value t) (Some al')"
    by blast
  from m' t' show "\<exists>al'. senderTransactions t' = Some al'" by simp
  from per m' t' show "distinct (map (\<lambda>p. Address (store ! p)) (senders t)) \<Longrightarrow> p \<in> set (senders t) \<Longrightarrow>
         length (lookupTxs (senderTransactions t') (Address (store ! p)))
           = length (lookupTxs (Some al) (Address (store ! p))) + ?n"
    by simp
  from cnt m' t' show "artifactCount (senderTransactions t')
           = artifactCount (Some al) + length (senders t) * ?n"
    by simp
  from val m' t' show "valueInv (test_value t) (Some al) \<Longrightarrow> valueInv (test_value t) (senderTransactions t')"
    by simp
qed

text \<open>
  C4, as amended. \<open>SignTransactions\<close> runs on a test as \<open>NewTest\<close> made it, with the
  senders \<open>ps\<close> assigned and the map of artifacts made empty by \<open>PrepareTransactions\<close>.
  When it returns without an error there is at least one sender; every sender (the
  senders having pairwise different addresses) has exactly \<open>max 0 (c / n)\<close> artifacts,
  where \<open>c\<close> is rate times duration as the 64-bit \<open>int\<close> the code computes, \<open>n\<close> the
  number of senders and \<open>/\<close> Go's truncating division; the artifacts built in all are
  \<open>n\<close> times that; and when \<open>0 \<le> rate * duration < 2^63\<close> these are
  \<open>(rate * duration) div n\<close> per sender and \<open>n * ((rate * duration) div n)\<close> in all,
  the remainder being built for no one.
\<close>

theorem artifacts_per_identity:
  assumes "SignTransactions lib node store
             ((NewTest chainId' configTestName configTest)
                \<lparr>senders := ps, senderTransactions := Some []\<rparr>) = Inr (store', t')"
    and "distinct (map (\<lambda>p. Address (store ! p)) ps)"
  shows "ps \<noteq> []
    \<and> (\<forall>p \<in> set ps. length (lookupTxs (senderTransactions t') (Address (store ! p)))
          = nat (quo (int64 (TPS (Config configTest) * Duration (Config configTest)))
                   (int (length ps))))
    \<and> artifactCount (senderTransactions t')
          = length ps * nat (quo (int64 (TPS (Config configTest) * Duration (Config configTest)))
                               (int (length ps)))
    \<and> (0 \<le> TPS (Config configTest) * Duration (Config configTest)
        \<and> TPS (Config configTest) * Duration (Config configTest) < 2 ^ 63 \<longrightarrow>
          (\<forall>p \<in> set ps. int (length (lookupTxs (senderTransactions t') (Address (store ! p))))
             = (TPS (Config configTest) * Duration (Config configTest)) div int (length ps))
          \<and> int (artifactCount (senderTransactions t'))
             = int (length ps)
               * ((TPS (Config configTest) * Duration (Config configTest)) div int (length ps)))"
proof -
  let ?t = "(NewTest chainId' configTestName configTest)
                \<lparr>senders := ps, senderTransactions := Some []\<rparr>"
  let ?r = "TPS (Config configTest) * Duration (Config configTest)"
  have s: "senders ?t = ps" "senderTransactions ?t = Some []" "txsCount ?t = int64 ?r"
    by (simp_all add: NewTest_def)
  note facts = SignTransactions_Inr [OF assms(1) s(2), unfolded s]
  have ne: "ps \<noteq> []" by (rule facts(1))
  have per: "length (lookupTxs (senderTransactions t') (Address (store ! p)))
      = nat (quo (int64 ?r) (int (length ps)))" if "p \<in> set ps" for p
    using facts(3) [OF assms(2) that] by (simp add: lookupTxs_empty)
  have tot: "artifactCount (senderTransactions t')
      = length ps * nat (quo (int64 ?r) (int (length ps)))"
    using facts(4) by (simp add: artifactCount_def)
  have inrange: "nat (quo (int64 ?r) (int (length ps))) = nat (?r div int (length ps))"
      "0 \<le> ?r div int (length ps)"
    if "0 \<le> ?r" "?r < 2 ^ 63"
  proof -
    from ne have "0 < int (length ps)" by simp
    with that show "nat (quo (int64 ?r) (int (length ps))) = nat (?r div int (length ps))"
      by (simp add: int64_id quo_nonneg)
    from that \<open>0 < int (length ps)\<close> show "0 \<le> ?r div int (length ps)"
      by (simp add: pos_imp_zdiv_nonneg_iff)
  qed
  have exact: "int (length (lookupTxs (senderTransactions t') (Address (store ! p))))
        = ?r div int (length ps)"
      if "0 \<le> ?r" "?r < 2 ^ 63" "p \<in> set ps" for p
    using per [OF that(3)] inrange [OF that(1,2)] by simp
  have total: "int (artifactCount (senderTransactions t'))
        = int (length ps) * (?r div int (length ps))"
      if "0 \<le> ?r" "?r < 2 ^ 63"
    using tot inrange [OF that] by simp
  show ?thesis
    using ne per tot exact total by blast
qed

lemma ex_run_two:
  "SignTransactions exLib exBuildNode [exSender 5, exSenderB 9]
     ((NewTest 1 ''t'' (exEntity 2 3 1 []))\<lparr>senders := [0, 1], senderTransactions := Some []\<rparr>)
   = Inr ([exSender 6, exSenderB 10],
          (NewTest 1 ''t'' (exEntity 2 3 1 []))
            \<lparr>senders := [0, 1],
             senderTransactions := Some [(exAddress, [exTx 5]), (exAddressB, [exTxB 9])]\<rparr>)"
  by (simp add: SignTransactions_def NewTest_def exEntity_def int64_def quo_def signData_def
      exSender_def exSenderB_def exTx_def exTxB_def exReply_def exAddress_def exAddressB_def
      exBuildNode_def CreateAndSignTransaction_def lookupTxs_def)

theorem artifacts_per_identity_witness:
  "SignTransactions exLib exBuildNode [exSender 5, exSenderB 9]
     ((NewTest 1 ''t'' (exEntity 2 3 1 []))\<lparr>senders := [0, 1], senderTransactions := Some []\<rparr>)
   = Inr ([exSender 6, exSenderB 10],
          (NewTest 1 ''t'' (exEntity 2 3 1 []))
            \<lparr>senders := [0, 1],
             senderTransactions := Some [(exAddress, [exTx 5]), (exAddressB, [exTxB 9])]\<rparr>)
   \<and> distinct (map (\<lambda>p. Address ([exSender 5, exSenderB 9] ! p)) [0, 1])
   \<and> length (lookupTxs (Some [(exAddress, [exTx 5]), (exAddressB, [exTxB 9])]) exAddress) = 1
   \<and> length (lookupTxs (Some [(exAddress, [exTx 5]), (exAddressB, [exTxB 9])]) exAddressB) = 1
   \<and> artifactCount (Some [(exAddress, [exTx 5]), (exAddressB, [exTxB 9])]) = 2
   \<and> (3 * 1) div int (length [0 :: nat, 1]) = 1"
proof -
  have d: "distinct (map (\<lambda>p. Address ([exSender 5, exSenderB 9] ! p)) [0, 1])"
    by (simp add: exSender_def exSenderB_def exAddress_def exAddressB_def)
  from artifacts_per_identity [OF ex_run_two d] ex_run_two d show ?thesis
    by (simp add: exEntity_def exSender_def exSenderB_def)
qed

text \<open>
  The claim as stated fails outside that range. With the rate \<open>-3\<close>, the duration 1
  and one sender nothing is built, and the quotient is \<open>-3\<close>; with rate and duration
  \<open>2^32\<close> the product wraps to 0 and nothing is built, and the quotient is \<open>2^64\<close>.
\<close>

theorem artifacts_per_identity_counterexample:
  "SignTransactions exLib exBuildNode [exSender 5]
     ((NewTest 1 ''t'' (exEntity 1 (- 3) 1 []))\<lparr>senders := [0], senderTransactions := Some []\<rparr>)
   = Inr ([exSender 5],
          (NewTest 1 ''t'' (exEntity 1 (- 3) 1 []))
            \<lparr>senders := [0], senderTransactions := Some []\<rparr>)
   \<and> int (length (lookupTxs (Some []) (Address (exSender 5))))
       \<noteq> (- 3 * 1) div int (length [0 :: nat])
   \<and> SignTransactions exLib exBuildNode [exSender 5]
     ((NewTest 1 ''t'' (exEntity 1 4294967296 4294967296 []))
        \<lparr>senders := [0], senderTransactions := Some []\<rparr>)
   = Inr ([exSender 5],
          (NewTest 1 ''t'' (exEntity 1 4294967296 4294967296 []))
            \<lparr>senders := [0], senderTransactions := Some []\<rparr>)
   \<and> int (length (lookupTxs (Some []) (Address (exSender 5))))
       \<noteq> (4294967296 * 4294967296) div int (length [0 :: nat])"
  by (simp add: SignTransactions_def NewTest_def exEntity_def int64_def quo_def signData_def
      lookupTxs_def)

text \<open>
  C9. When the value string of the configuration is not a base-10 numeral (the empty
  string is none), \<open>NewTest\<close>, which returns a test and no error, sets the value to 0,
  and every signed transaction that \<open>SignTransactions\<close> then builds for that test
  carries the value 0.
\<close>

theorem unparsable_value_is_zero:
  assumes "\<not> isBase10 (cfg_value (Config configTest))"
  shows "test_value (NewTest chainId' configTestName configTest) = 0
    \<and> (\<forall>lib node store ps store' t' b tx d.
          SignTransactions lib node store
            ((NewTest chainId' configTestName configTest)
               \<lparr>senders := ps, senderTransactions := Some []\<rparr>) = Inr (store', t')
          \<and> tx \<in> set (lookupTxs (senderTransactions t') b)
          \<and> clientTransaction tx = Some d
          \<longrightarrow> tx_Value d = 0)"
proof -
  from assms SetString10_Some [of "cfg_value (Config configTest)"]
  have "SetString10 (cfg_value (Config configTest)) = None"
    by (cases "SetString10 (cfg_value (Config configTest))") auto
  then have zero: "test_value (NewTest chainId' configTestName configTest) = 0"
    by (simp add: NewTest_def)
  have "tx_Value d = 0"
    if run: "SignTransactions lib node store
            ((NewTest chainId' configTestName configTest)
               \<lparr>senders := ps, senderTransactions := Some []\<rparr>) = Inr (store', t')"
      and tx: "tx \<in> set (lookupTxs (senderTransactions t') b)" "clientTransaction tx = Some d"
    for lib node store ps store' t' b tx d
  proof -
    let ?t = "(NewTest chainId' configTestName configTest)
                \<lparr>senders := ps, senderTransactions := Some []\<rparr>"
    have "senderTransactions ?t = Some []" by simp
    moreover have "test_value ?t = 0" using zero by simp
    moreover have "valueInv 0 (Some [])"
      by (simp add: valueInv_def lookupTxs_empty)
    ultimately have "valueInv 0 (senderTransactions t')"
      using SignTransactions_Inr(5) [OF run, of "[]"] by simp
    with tx show ?thesis unfolding valueInv_def by blast
  qed
  with zero show ?thesis by blast
qed


lemma SetString10_abc: "SetString10 ''abc'' = None"
  by (simp add: SetString10_def scanNat_def isDigit_def)

lemma ex_run_abc:
  "SignTransactions exLib exBuildNode [exSender 5]
     ((NewTest 1 ''t'' (exEntity 1 1 1 ''abc''))\<lparr>senders := [0], senderTransactions := Some []\<rparr>)
   = Inr ([exSender 6],
          (NewTest 1 ''t'' (exEntity 1 1 1 ''abc''))
            \<lparr>senders := [0], senderTransactions := Some [(exAddress, [exTx 5])]\<rparr>)"
  by (simp add: SignTransactions_def NewTest_def exEntity_def int64_def quo_def signData_def
      exSender_def exTx_def exReply_def exAddress_def SetString10_abc exBuildNode_def
      CreateAndSignTransaction_def lookupTxs_def)

theorem unparsable_value_is_zero_witness:
  "\<not> isBase10 (cfg_value (Config (exEntity 1 1 1 ''abc'')))
   \<and> test_value (NewTest 1 ''t'' (exEntity 1 1 1 ''abc'')) = 0
   \<and> SignTransactions exLib exBuildNode [exSender 5]
     ((NewTest 1 ''t'' (exEntity 1 1 1 ''abc''))\<lparr>senders := [0], senderTransactions := Some []\<rparr>)
   = Inr ([exSender 6],
          (NewTest 1 ''t'' (exEntity 1 1 1 ''abc''))
            \<lparr>senders := [0], senderTransactions := Some [(exAddress, [exTx 5])]\<rparr>)
   \<and> map_option tx_Value (clientTransaction (exTx 5)) = Some 0"
proof -
  from SetString10_abc SetString10_Some [of "''abc''"] have a: "\<not> isBase10 (cfg_value (Config (exEntity 1 1 1 ''abc'')))"
    by (simp add: exEntity_def)
  from unparsable_value_is_zero [OF a, of 1 "''t''"] a ex_run_abc show ?thesis
    by (simp add: exTx_def)
qed

section \<open>Collecting the outcomes\<close>

lemma resolves_refl: "resolves tx tx"
  by (simp add: resolves_def)

lemma resolves_trans: "resolves a b \<Longrightarrow> resolves b c \<Longrightarrow> resolves a c"
  by (auto simp: resolves_def)

lemma consTx_Inr:
  "consTx tx r = Inr (txs', c') \<Longrightarrow> \<exists>rest. r = Inr (rest, c') \<and> txs' = tx # rest"
  by (auto simp: consTx_def split: sum.splits prod.splits)

lemma sweep_resolves:
  "sweep fetch i txs c = Inr (txs', c') \<Longrightarrow> list_all2 resolves txs txs'"
proof (induction txs arbitrary: i c txs')
  case Nil
  then show ?case by simp
next
  case (Cons tx txs)
  show ?case
  proof (cases "receipt tx \<noteq> None")
    case True
    with Cons.prems obtain rest where
      "sweep fetch (Suc i) txs c = Inr (rest, c')" "txs' = tx # rest"
      by (auto dest!: consTx_Inr)
    with Cons.IH show ?thesis by (auto simp: resolves_refl)
  next
    case False
    then have none: "receipt tx = None" by simp
    with Cons.prems obtain clientTx where cl: "clientTransaction tx = Some clientTx"
      by (auto split: option.splits)
    show ?thesis
    proof (cases "fetch i")
      case None
      with Cons.prems none cl obtain rest where
        "sweep fetch (Suc i) txs c = Inr (rest, c')" "txs' = tx # rest"
        by (auto dest!: consTx_Inr)
      with Cons.IH show ?thesis by (auto simp: resolves_refl)
    next
      case (Some txReceipt)
      with Cons.prems none cl obtain rest c1 where
        "sweep fetch (Suc i) txs c1 = Inr (rest, c')" "txs' = tx\<lparr>receipt := Some txReceipt\<rparr> # rest"
        by (auto dest!: consTx_Inr)
      with Cons.IH none show ?thesis by (auto simp: resolves_def)
    qed
  qed
qed

lemma sweep_all_resolved:
  "list_all (\<lambda>tx. receipt tx \<noteq> None) txs \<Longrightarrow> sweep fetch i txs c = Inr (txs, c)"
  by (induction txs arbitrary: i) (auto simp: consTx_def)

lemma list_all2_resolves_trans:
  "list_all2 resolves xs ys \<Longrightarrow> list_all2 resolves ys zs \<Longrightarrow> list_all2 resolves xs zs"
  by (rule list_all2_trans [where ?P1.0 = resolves and ?P2.0 = resolves])
    (auto intro: resolves_trans)

lemma collectLoop_resolves:
  "collectLoop fetch totalCount attempts txCollected txs c = Inr (txs', c') \<Longrightarrow>
   list_all2 resolves txs txs'"
proof (induction fetch totalCount attempts txCollected txs c rule: collectLoop.induct)
  case (1 fetch totalCount attempts txCollected txs c)
  show ?case
  proof (cases "attempts < AttemptsToCollect \<and> \<not> txCollected")
    case True
    with "1.prems" obtain txs1 c1 where
      sw: "sweep (fetch attempts) 0 txs c = Inr (txs1, c1)" and
      rest: "collectLoop fetch totalCount (attempts + 1) (collectedTxCount c1 = totalCount)
               txs1 c1 = Inr (txs', c')"
      by (subst (asm) collectLoop.simps) (auto split: sum.splits prod.splits)
    from "1.IH" [OF True sw refl rest] sweep_resolves [OF sw]
    show ?thesis by (rule list_all2_resolves_trans [rotated])
  next
    case False
    with "1.prems" have "txs' = txs"
      by (subst (asm) collectLoop.simps) auto
    then show ?thesis by (simp add: list_all2_refl resolves_refl)
  qed
qed

lemma resolves_nth:
  assumes "list_all2 resolves txs txs'"
  shows "length txs' = length txs"
    and "k < length txs \<Longrightarrow> receipt (txs ! k) = Some r \<Longrightarrow> txs' ! k = txs ! k"
    and "k < length txs \<Longrightarrow> txs' ! k = txs ! k
           \<or> (receipt (txs ! k) = None \<and> (\<exists>r. txs' ! k = (txs ! k)\<lparr>receipt := Some r\<rparr>))"
  using assms by (auto simp: list_all2_conv_all_nth resolves_def)

lemma lookupTxs_map_entry:
  "lookupTxs (map_option (AList.map_entry a (\<lambda>old. x)) m) b =
     (if b = a \<and> (\<exists>al old. m = Some al \<and> map_of al a = Some old) then x else lookupTxs m b)"
  by (cases m) (auto simp: lookupTxs_def map_of_map_entry split: option.splits)

lemma collectSender_resolves:
  assumes "collectSender node a (m, hashes, counter) = Inr (m', hashes', counter')"
  shows "list_all2 resolves (lookupTxs m b) (lookupTxs m' b)"
proof -
  from assms obtain txs' c' where
    loop: "collectLoop (TransactionReceipt node a) (int (length (lookupTxs m a))) 0 False
             (lookupTxs m a)
             \<lparr>collectedTxCount = 0, blockHashes = hashes, totalCollectedTxCount = counter\<rparr>
           = Inr (txs', c')" and
    m': "m' = map_option (AList.map_entry a (\<lambda>old. txs')) m"
    by (auto simp: collectSender_def split: sum.splits prod.splits)
  have res: "list_all2 resolves (lookupTxs m a) txs'"
    by (rule collectLoop_resolves [OF loop])
  show ?thesis
  proof (cases "b = a \<and> (\<exists>al old. m = Some al \<and> map_of al a = Some old)")
    case True
    with res m' show ?thesis by (simp add: lookupTxs_map_entry)
  next
    case False
    with m' have "lookupTxs m' b = lookupTxs m b"
      by (simp only: lookupTxs_map_entry if_False)
    then show ?thesis by (simp add: list_all2_refl resolves_refl)
  qed
qed

lemma collectSenders_resolves:
  "collectSenders node store ps (m, hashes, counter) = Inr (m', hashes', counter') \<Longrightarrow>
   list_all2 resolves (lookupTxs m b) (lookupTxs m' b)"
proof (induction ps arbitrary: m hashes counter)
  case Nil
  then show ?case by (simp add: list_all2_refl resolves_refl)
next
  case (Cons p ps)
  from Cons.prems obtain m1 hashes1 counter1 where
    one: "collectSender node (Address (store ! p)) (m, hashes, counter)
            = Inr (m1, hashes1, counter1)" and
    rest: "collectSenders node store ps (m1, hashes1, counter1) = Inr (m', hashes', counter')"
    by (auto split: if_splits sum.splits)
  from collectSender_resolves [OF one] Cons.IH [OF rest]
  show ?case by (rule list_all2_resolves_trans)
qed

lemma CollectData_resolves:
  assumes "CollectData node store t counter = Inr (t', counter')"
  shows "list_all2 resolves (lookupTxs (senderTransactions t) b)
           (lookupTxs (senderTransactions t') b)"
proof -
  from assms obtain m' hashes where
    "collectSenders node store (senders t) (senderTransactions t, [], counter)
       = Inr (m', hashes, counter')" and "senderTransactions t' = m'"
    by (auto simp: CollectData_def split: sum.splits prod.splits)
  then show ?thesis using collectSenders_resolves by simp
qed

text \<open>
  C7. Outcome resolution is idempotent. A sweep that returns keeps the number of
  artifacts and leaves every artifact whose receipt is set exactly as it was; any other
  artifact is left as it was or gets its receipt, and nothing else changes. A sweep over
  artifacts that all have their receipt changes nothing at all. The same holds for all
  the sweeps of one collector taken together, and for \<open>CollectData\<close> over every sender's
  artifacts: once set, a receipt is never overwritten.
\<close>

theorem outcome_resolution_idempotent:
  "(sweep fetch1 i txs c = Inr (txs1, c1) \<longrightarrow>
      length txs1 = length txs
      \<and> (\<forall>k r. k < length txs \<and> receipt (txs ! k) = Some r \<longrightarrow> txs1 ! k = txs ! k)
      \<and> (\<forall>k. k < length txs \<longrightarrow>
            txs1 ! k = txs ! k
            \<or> (receipt (txs ! k) = None \<and> (\<exists>r. txs1 ! k = (txs ! k)\<lparr>receipt := Some r\<rparr>))))
   \<and> (list_all (\<lambda>tx. receipt tx \<noteq> None) txs \<longrightarrow> sweep fetch1 i txs c = Inr (txs, c))
   \<and> (collectLoop fetch totalCount attempts txCollected txs c = Inr (txs2, c2) \<longrightarrow>
      length txs2 = length txs
      \<and> (\<forall>k r. k < length txs \<and> receipt (txs ! k) = Some r \<longrightarrow> txs2 ! k = txs ! k)
      \<and> (\<forall>k. k < length txs \<longrightarrow>
            txs2 ! k = txs ! k
            \<or> (receipt (txs ! k) = None \<and> (\<exists>r. txs2 ! k = (txs ! k)\<lparr>receipt := Some r\<rparr>))))
   \<and> (CollectData node store t counter = Inr (t', counter') \<longrightarrow>
      (\<forall>a k r. k < length (lookupTxs (senderTransactions t) a)
          \<and> receipt (lookupTxs (senderTransactions t) a ! k) = Some r
        \<longrightarrow> lookupTxs (senderTransactions t') a ! k = lookupTxs (senderTransactions t) a ! k))"
proof (intro conjI impI)
  assume a: "sweep fetch1 i txs c = Inr (txs1, c1)"
  note r = resolves_nth [OF sweep_resolves [OF a]]
  show "length txs1 = length txs" by (rule r(1))
  show "\<forall>k r. k < length txs \<and> receipt (txs ! k) = Some r \<longrightarrow> txs1 ! k = txs ! k"
    using r(2) by blast
  show "\<forall>k. k < length txs \<longrightarrow>
            txs1 ! k = txs ! k
            \<or> (receipt (txs ! k) = None \<and> (\<exists>r. txs1 ! k = (txs ! k)\<lparr>receipt := Some r\<rparr>))"
    using r(3) by blast
next
  assume "list_all (\<lambda>tx. receipt tx \<noteq> None) txs"
  then show "sweep fetch1 i txs c = Inr (txs, c)" by (rule sweep_all_resolved)
next
  assume a: "collectLoop fetch totalCount attempts txCollected txs c = Inr (txs2, c2)"
  note r = resolves_nth [OF collectLoop_resolves [OF a]]
  show "length txs2 = length txs" by (rule r(1))
  show "\<forall>k r. k < length txs \<and> receipt (txs ! k) = Some r \<longrightarrow> txs2 ! k = txs ! k"
    using r(2) by blast
  show "\<forall>k. k < length txs \<longrightarrow>
            txs2 ! k = txs ! k
            \<or> (receipt (txs ! k) = None \<and> (\<exists>r. txs2 ! k = (txs ! k)\<lparr>receipt := Some r\<rparr>))"
    using r(3) by blast
next
  assume a: "CollectData node store t counter = Inr (t', counter')"
  show "\<forall>a k r. k < length (lookupTxs (senderTransactions t) a)
          \<and> receipt (lookupTxs (senderTransactions t) a ! k) = Some r
        \<longrightarrow> lookupTxs (senderTransactions t') a ! k = lookupTxs (senderTransactions t) a ! k"
    using resolves_nth(2) [OF CollectData_resolves [OF a]] by blast
qed

lemma ex_sweep:
  "sweep (\<lambda>i. Some exReceiptB) 0 [(exTx 5)\<lparr>receipt := Some exReceiptA\<rparr>, exTx 6] exCollect
   = Inr ([(exTx 5)\<lparr>receipt := Some exReceiptA\<rparr>, (exTx 6)\<lparr>receipt := Some exReceiptB\<rparr>],
          \<lparr>collectedTxCount = 1, blockHashes = [''b''], totalCollectedTxCount = 1\<rparr>)"
  by (simp add: exTx_def exCollect_def exReceiptB_def consTx_def)

lemma ex_collectLoop:
  "collectLoop (\<lambda>a i. Some exReceiptB) 2 0 False
     [(exTx 5)\<lparr>receipt := Some exReceiptA\<rparr>, exTx 6] exCollect
   = Inr ([(exTx 5)\<lparr>receipt := Some exReceiptA\<rparr>, (exTx 6)\<lparr>receipt := Some exReceiptB\<rparr>],
          \<lparr>collectedTxCount = 1, blockHashes = [''b''], totalCollectedTxCount = 1\<rparr>)"
  by (simp add: collectLoop.simps AttemptsToCollect_def exTx_def exCollect_def exReceiptB_def
      consTx_def)

lemma ex_CollectData:
  "CollectData exNode [exSender 7] (exTest [(exTx 5)\<lparr>receipt := Some exReceiptA\<rparr>, exTx 6]) 0
   = Inr ((exTest [(exTx 5)\<lparr>receipt := Some exReceiptA\<rparr>,
                   (exTx 6)\<lparr>receipt := Some exReceiptB\<rparr>])\<lparr>blocks := [exBlock]\<rparr>, 1)"
  by (simp add: CollectData_def collectSender_def collectLoop.simps AttemptsToCollect_def
      exTest_def exNode_def exSender_def exTx_def exReceiptB_def exAddress_def
      consTx_def lookupTxs_def NewTest_def)

theorem outcome_resolution_idempotent_witness:
  "sweep (\<lambda>i. Some exReceiptB) 0 [(exTx 5)\<lparr>receipt := Some exReceiptA\<rparr>, exTx 6] exCollect
   = Inr ([(exTx 5)\<lparr>receipt := Some exReceiptA\<rparr>, (exTx 6)\<lparr>receipt := Some exReceiptB\<rparr>],
          \<lparr>collectedTxCount = 1, blockHashes = [''b''], totalCollectedTxCount = 1\<rparr>)
   \<and> collectLoop (\<lambda>a i. Some exReceiptB) 2 0 False
     [(exTx 5)\<lparr>receipt := Some exReceiptA\<rparr>, exTx 6] exCollect
   = Inr ([(exTx 5)\<lparr>receipt := Some exReceiptA\<rparr>, (exTx 6)\<lparr>receipt := Some exReceiptB\<rparr>],
          \<lparr>collectedTxCount = 1, blockHashes = [''b''], totalCollectedTxCount = 1\<rparr>)
   \<and> CollectData exNode [exSender 7] (exTest [(exTx 5)\<lparr>receipt := Some exReceiptA\<rparr>, exTx 6]) 0
   = Inr ((exTest [(exTx 5)\<lparr>receipt := Some exReceiptA\<rparr>,
                   (exTx 6)\<lparr>receipt := Some exReceiptB\<rparr>])\<lparr>blocks := [exBlock]\<rparr>, 1)
   \<and> receipt ([(exTx 5)\<lparr>receipt := Some exReceiptA\<rparr>, exTx 6] ! 0) = Some exReceiptA
   \<and> list_all (\<lambda>tx. receipt tx \<noteq> None) [(exTx 5)\<lparr>receipt := Some exReceiptA\<rparr>]
   \<and> sweep (\<lambda>i. Some exReceiptB) 0 [(exTx 5)\<lparr>receipt := Some exReceiptA\<rparr>] exCollect
     = Inr ([(exTx 5)\<lparr>receipt := Some exReceiptA\<rparr>], exCollect)"
proof -
  have all: "list_all (\<lambda>tx. receipt tx \<noteq> None) [(exTx 5)\<lparr>receipt := Some exReceiptA\<rparr>]"
    by simp
  from outcome_resolution_idempotent
      [of "\<lambda>i. Some exReceiptB" 0 "[(exTx 5)\<lparr>receipt := Some exReceiptA\<rparr>]" exCollect]
    all
  have "sweep (\<lambda>i. Some exReceiptB) 0 [(exTx 5)\<lparr>receipt := Some exReceiptA\<rparr>] exCollect
     = Inr ([(exTx 5)\<lparr>receipt := Some exReceiptA\<rparr>], exCollect)"
    by blast
  with ex_sweep ex_collectLoop ex_CollectData show ?thesis by simp
qed

section \<open>Aggregating the metrics\<close>

text \<open>
  C1. The claim has an artifact that never resolved left out of every metric, and the
  aggregation still completing. In the code, a node that never returns a receipt leaves
  the artifact's receipt nil when \<open>CollectData\<close> ends after its ten attempts, and
  \<open>CollectMetrics\<close> then reads \<open>tx.receipt.BlockNumber\<close> of that artifact: the
  aggregation panics on the nil pointer and produces no metrics.
\<close>

theorem unresolved_artifact_crashes_aggregation:
  "CollectData exSilentNode [exSender 6] (exTest [exTx 5]) 0 = Inr (exTest [exTx 5], 0)
   \<and> receipt (exTx 5) = None
   \<and> CollectMetrics (exTest [exTx 5]) = Inl (Panic NilPointerDereference)"
  by (simp add: CollectData_def collectSender_def collectLoop.simps AttemptsToCollect_def
      exTest_def exSilentNode_def exSender_def exTx_def exAddress_def consTx_def lookupTxs_def
      NewTest_def CollectMetrics_def blockAverages_def tallyTx_def)

lemma of_int_uint64_nonzero:
  "0 < k \<Longrightarrow> k < 2 ^ 64 \<Longrightarrow> (word_of_int k :: uint64) \<noteq> 0"
  using of_nat_uint64_nonzero [of "nat k"] by (simp add: nat_less_iff)

lemma blockAverages_Nil: "blockAverages [] m = Inr m"
  by (simp add: blockAverages_def)

lemma blockAverages_returns:
  "length bs < 2 ^ 64 \<Longrightarrow> \<exists>m'. blockAverages bs m = Inr m'
     \<and> avgTimeToInclude m' = avgTimeToInclude m
     \<and> avgGasPricePerTx m' = avgGasPricePerTx m"
proof (cases "bs = []")
  case True
  then show ?thesis by (simp add: blockAverages_Nil)
next
  case False
  assume "length bs < 2 ^ 64"
  with False have "(of_nat (length bs) :: uint64) \<noteq> 0"
    by (intro of_nat_uint64_nonzero) simp_all
  with False show ?thesis
    by (simp add: blockAverages_def int_quo_def uint_quo_def Let_def)
qed

lemma tallyTx_cases:
  "tallyTx bs tx a = Inl e \<Longrightarrow> e = Panic NilPointerDereference"
  "tallyTx bs tx a = Inr a' \<Longrightarrow>
     receipt tx \<noteq> None
     \<and> totalTxCount a' = totalTxCount a + 1
     \<and> avgTimeToInclude (tallyMetrics a') = avgTimeToInclude (tallyMetrics a)
     \<and> avgGasPricePerTx (tallyMetrics a') = avgGasPricePerTx (tallyMetrics a)
     \<and> avgTxsPerBlock (tallyMetrics a') = avgTxsPerBlock (tallyMetrics a)
     \<and> avgGasUsedPerBlock (tallyMetrics a') = avgGasUsedPerBlock (tallyMetrics a)"
  by (auto simp: tallyTx_def Let_def split: option.splits if_splits)

lemma tallyTxs_Inl:
  "tallyTxs bs txs a = Inl e \<Longrightarrow> e = Panic NilPointerDereference"
  by (induction txs arbitrary: a) (auto split: sum.splits dest: tallyTx_cases(1))

lemma tallyTxs_Inr:
  "tallyTxs bs txs a = Inr a' \<Longrightarrow>
     list_all (\<lambda>tx. receipt tx \<noteq> None) txs
     \<and> totalTxCount a' = totalTxCount a + int (length txs) \<and> sameAverages a a'"
proof (induction txs arbitrary: a)
  case Nil
  then show ?case by (simp add: sameAverages_def)
next
  case (Cons tx txs)
  from Cons.prems obtain a1 where
    one: "tallyTx bs tx a = Inr a1" and rest: "tallyTxs bs txs a1 = Inr a'"
    by (auto split: sum.splits)
  from tallyTx_cases(2) [OF one] Cons.IH [OF rest] show ?case
    by (auto simp: sameAverages_def)
qed

lemma tallySenders_Inl:
  "tallySenders bs al a = Inl e \<Longrightarrow> e = Panic NilPointerDereference"
  by (induction al arbitrary: a) (auto split: sum.splits dest: tallyTxs_Inl)

lemma tallySenders_Inr:
  "tallySenders bs al a = Inr a' \<Longrightarrow>
     allResolved (Some al)
     \<and> totalTxCount a' = totalTxCount a + int (artifactCount (Some al)) \<and> sameAverages a a'"
proof (induction al arbitrary: a)
  case Nil
  then show ?case by (simp add: sameAverages_def allResolved_def artifactCount_def)
next
  case (Cons e al)
  obtain senderAddress senderTxs where e: "e = (senderAddress, senderTxs)" by (cases e)
  with Cons.prems obtain a1 where
    one: "tallyTxs bs senderTxs a = Inr a1" and rest: "tallySenders bs al a1 = Inr a'"
    by (auto split: sum.splits)
  from tallyTxs_Inr [OF one] Cons.IH [OF rest] e show ?case
    by (auto simp: sameAverages_def allResolved_def artifactCount_def)
qed

lemma artifactAverages_returns:
  assumes "0 \<le> totalTxCount a" "totalTxCount a < 2 ^ 64"
  shows "\<exists>m. artifactAverages a = Inr m
     \<and> avgTxsPerBlock m = avgTxsPerBlock (tallyMetrics a)
     \<and> avgGasUsedPerBlock m = avgGasUsedPerBlock (tallyMetrics a)
     \<and> (totalTxCount a = 0 \<longrightarrow> m = tallyMetrics a)"
proof (cases "totalTxCount a = 0")
  case True
  then show ?thesis by (simp add: artifactAverages_def)
next
  case False
  with assms have "(word_of_int (totalTxCount a) :: uint64) \<noteq> 0"
    by (intro of_int_uint64_nonzero) simp_all
  with False show ?thesis
    by (simp add: artifactAverages_def uint_quo_def big_Div_def)
qed

lemma allResolved_count:
  "allResolved m \<Longrightarrow> resolvedCount m = artifactCount m"
proof (cases m)
  case None
  then show ?thesis by (simp add: resolvedCount_def artifactCount_def)
next
  case (Some al)
  assume "allResolved m"
  with Some have "list_all (\<lambda>e. list_all (\<lambda>tx. receipt tx \<noteq> None) (snd e)) al"
    by (simp add: allResolved_def)
  then have "map (\<lambda>e. length (filter (\<lambda>tx. receipt tx \<noteq> None) (snd e))) al
           = map (\<lambda>e. length (snd e)) al"
    by (induction al) (auto simp: list_all_iff)
  then have "sum_list (map (\<lambda>e. length (filter (\<lambda>tx. receipt tx \<noteq> None) (snd e))) al)
           = sum_list (map (\<lambda>e. length (snd e)) al)"
    by (rule arg_cong)
  with Some show ?thesis by (simp only: resolvedCount_def artifactCount_def option.case)
qed

text \<open>
  What the two guards of \<open>CollectMetrics\<close> do, for a test with fewer than \<open>2^63\<close>
  blocks and artifacts (the lengths Go can have): no division by zero is reached; an
  artifact without a receipt makes the call panic on the nil pointer; and when the call
  returns, the averages per block are zero if there is no block, and the averages per
  artifact are zero if no artifact is resolved.
\<close>

lemma CollectMetrics_guards:
  assumes "length (blocks t) < 2 ^ 63" and "artifactCount (senderTransactions t) < 2 ^ 63"
  shows "CollectMetrics t \<noteq> Inl (Panic IntegerDivideByZero)"
    and "\<not> allResolved (senderTransactions t) \<Longrightarrow>
           CollectMetrics t = Inl (Panic NilPointerDereference)"
    and "CollectMetrics t = Inr t' \<Longrightarrow>
           \<exists>m. metrics t' = Some m
             \<and> (blocks t = [] \<longrightarrow> avgTxsPerBlock m = 0 \<and> avgGasUsedPerBlock m = 0)
             \<and> (resolvedCount (senderTransactions t) = 0 \<longrightarrow>
                   avgTimeToInclude m = 0 \<and> avgGasPricePerTx m = 0)"
proof -
  let ?al = "case senderTransactions t of None \<Rightarrow> [] | Some al \<Rightarrow> al"
  let ?a0 = "\<lambda>m. \<lparr>tallyMetrics = m, totalGasPrice = 0, totalTxCount = 0,
                   totalTimeToInclude = 0 :: uint64\<rparr>"
  have al: "allResolved (Some ?al) = allResolved (senderTransactions t)"
    "artifactCount (Some ?al) = artifactCount (senderTransactions t)"
    by (cases "senderTransactions t"; simp add: allResolved_def artifactCount_def)+
  from assms(1) have "length (blocks t) < 2 ^ 64" by simp
  from blockAverages_returns [OF this, of "newMetrics t"] obtain m1 where
    m1: "blockAverages (blocks t) (newMetrics t) = Inr m1" and
    z1: "avgTimeToInclude m1 = 0" "avgGasPricePerTx m1 = 0"
    by (auto simp: newMetrics_def)
  have zb: "avgTxsPerBlock m1 = 0 \<and> avgGasUsedPerBlock m1 = 0" if "blocks t = []"
    using m1 that by (auto simp: blockAverages_Nil newMetrics_def)
  have all: "CollectMetrics t \<noteq> Inl (Panic IntegerDivideByZero)
      \<and> (\<not> allResolved (senderTransactions t) \<longrightarrow>
            CollectMetrics t = Inl (Panic NilPointerDereference))
      \<and> (\<forall>t'. CollectMetrics t = Inr t' \<longrightarrow>
            (\<exists>m. metrics t' = Some m
               \<and> (blocks t = [] \<longrightarrow> avgTxsPerBlock m = 0 \<and> avgGasUsedPerBlock m = 0)
               \<and> (resolvedCount (senderTransactions t) = 0 \<longrightarrow>
                     avgTimeToInclude m = 0 \<and> avgGasPricePerTx m = 0)))"
  proof (cases "tallySenders (blocks t) ?al (?a0 m1)")
    case (Inl e)
    then have "e = Panic NilPointerDereference" by (rule tallySenders_Inl)
    with Inl m1 have "CollectMetrics t = Inl (Panic NilPointerDereference)"
      by (simp add: CollectMetrics_def)
    then show ?thesis by simp
  next
    case (Inr a')
    from tallySenders_Inr [OF Inr] al have
      res: "allResolved (senderTransactions t)" and
      cnt: "totalTxCount a' = int (artifactCount (senderTransactions t))" and
      same: "sameAverages (?a0 m1) a'"
      by simp_all
    from cnt assms(2) have "0 \<le> totalTxCount a'" "totalTxCount a' < 2 ^ 64" by simp_all
    from artifactAverages_returns [OF this] obtain m where
      m: "artifactAverages a' = Inr m" and
      mb: "avgTxsPerBlock m = avgTxsPerBlock (tallyMetrics a')"
          "avgGasUsedPerBlock m = avgGasUsedPerBlock (tallyMetrics a')" and
      mz: "totalTxCount a' = 0 \<longrightarrow> m = tallyMetrics a'"
      by blast
    have cm: "CollectMetrics t = Inr (t\<lparr>metrics := Some m\<rparr>)"
      using m1 Inr m by (simp add: CollectMetrics_def)
    have b0: "avgTxsPerBlock m = 0 \<and> avgGasUsedPerBlock m = 0" if "blocks t = []"
      using zb [OF that] mb same by (simp add: sameAverages_def)
    have "resolvedCount (senderTransactions t) = artifactCount (senderTransactions t)"
      using res by (rule allResolved_count)
    then have a0: "avgTimeToInclude m = 0 \<and> avgGasPricePerTx m = 0"
      if "resolvedCount (senderTransactions t) = 0"
      using that cnt mz same z1 by (simp add: sameAverages_def)
    from cm res b0 a0 show ?thesis by simp
  qed
  from all show "CollectMetrics t \<noteq> Inl (Panic IntegerDivideByZero)" by simp
  from all show "CollectMetrics t = Inl (Panic NilPointerDereference)"
    if "\<not> allResolved (senderTransactions t)" using that by simp
  from all show "\<exists>m. metrics t' = Some m
      \<and> (blocks t = [] \<longrightarrow> avgTxsPerBlock m = 0 \<and> avgGasUsedPerBlock m = 0)
      \<and> (resolvedCount (senderTransactions t) = 0 \<longrightarrow>
            avgTimeToInclude m = 0 \<and> avgGasPricePerTx m = 0)"
    if "CollectMetrics t = Inr t'" using that by simp
qed

text \<open>
  C6. The claim has the averages zero, and no error or crash, when no block was
  collected and when no artifact is resolved. The two divisions are guarded as it
  says, and a test that holds no artifact gets its four averages zero. But a test
  whose artifacts all stayed without a receipt, which is how a collection ends with no
  block, does not reach the second guard: \<open>CollectMetrics\<close> reads
  \<open>tx.receipt.BlockNumber\<close> of its first artifact, panics on the nil pointer and
  produces no metrics, where the claim has zero averages.
\<close>

theorem no_resolved_artifact_crashes_averages:
  "CollectData exSilentNode [exSender 7] (exTest [exTx 5, exTx 6]) 0
     = Inr (exTest [exTx 5, exTx 6], 0)
   \<and> blocks (exTest [exTx 5, exTx 6]) = []
   \<and> artifactCount (senderTransactions (exTest [exTx 5, exTx 6])) = 2
   \<and> resolvedCount (senderTransactions (exTest [exTx 5, exTx 6])) = 0
   \<and> CollectMetrics (exTest [exTx 5, exTx 6]) = Inl (Panic NilPointerDereference)
   \<and> CollectMetrics (exTest []) = Inr ((exTest [])\<lparr>metrics := Some (newMetrics (exTest []))\<rparr>)
   \<and> avgTxsPerBlock (newMetrics (exTest [])) = 0
   \<and> avgGasUsedPerBlock (newMetrics (exTest [])) = 0
   \<and> avgTimeToInclude (newMetrics (exTest [])) = 0
   \<and> avgGasPricePerTx (newMetrics (exTest [])) = 0"
proof -
  have a: "CollectData exSilentNode [exSender 7] (exTest [exTx 5, exTx 6]) 0
      = Inr (exTest [exTx 5, exTx 6], 0)"
    by (simp add: CollectData_def collectSender_def collectLoop.simps AttemptsToCollect_def
        exTest_def exSilentNode_def exSender_def exTx_def exAddress_def consTx_def
        lookupTxs_def NewTest_def)
  have b: "blocks (exTest [exTx 5, exTx 6]) = []"
    by (simp add: exTest_def NewTest_def)
  have c: "artifactCount (senderTransactions (exTest [exTx 5, exTx 6])) = 2"
    "resolvedCount (senderTransactions (exTest [exTx 5, exTx 6])) = 0"
    by (simp_all add: exTest_def artifactCount_def resolvedCount_def exTx_def)
  have d: "CollectMetrics (exTest [exTx 5, exTx 6]) = Inl (Panic NilPointerDereference)"
    by (simp add: CollectMetrics_def exTest_def NewTest_def blockAverages_def tallyTx_def
        exTx_def)
  have e: "CollectMetrics (exTest [])
      = Inr ((exTest [])\<lparr>metrics := Some (newMetrics (exTest []))\<rparr>)"
    by (simp add: CollectMetrics_def exTest_def NewTest_def blockAverages_def
        artifactAverages_def)
  from a b c d e show ?thesis
    by (simp add: newMetrics_def)
qed

section \<open>The inclusion-distance histogram and its table\<close>

lemma dataBlocksLoop_done:
  "card processed = card (dom h) \<Longrightarrow> dataBlocksLoop h i processed rows = Some rows"
  by (subst dataBlocksLoop.simps) simp

lemma dataBlocksLoop_step:
  "card processed \<noteq> card (dom h) \<Longrightarrow>
   dataBlocksLoop h i processed rows =
     dataBlocksLoop h (i + 1) (if i \<in> dom h then insert i processed else processed)
       (rows @ [blockRow h i])"
  by (subst dataBlocksLoop.simps) (auto simp: blockRow_def split: option.splits)

lemma unat_succ:
  fixes i M :: uint64
  assumes "i < M"
  shows "unat (i + 1) = Suc (unat i)"
proof -
  have "unat M < 2 ^ 64" using unsigned_less [of M] by simp
  with assms have "unat i + 1 < 2 ^ 64" by (simp add: word_less_nat_alt)
  then show ?thesis by (simp add: unat_word_ariths)
qed

lemma below_Suc_word:
  fixes i M :: uint64
  assumes "i < M"
  shows "{k \<in> K. k < i + 1} = (if i \<in> K then insert i {k \<in> K. k < i} else {k \<in> K. k < i})"
proof -
  have "k < i + 1 \<longleftrightarrow> k < i \<or> k = i" for k
    using unat_succ [OF assms] by (auto simp: word_less_nat_alt word_unat_eq_iff)
  then show ?thesis by auto
qed

lemma dataBlocksLoop_run:
  fixes h :: "uint64 \<rightharpoonup> uint64"
  assumes "finite (dom h)" and "dom h \<noteq> {}"
  shows "unat (Max (dom h)) - unat i = n \<Longrightarrow> i \<le> Max (dom h) \<Longrightarrow>
    dataBlocksLoop h i {k \<in> dom h. k < i} rows
      = Some (rows @ map (\<lambda>j. blockRow h (of_nat j)) [unat i..<Suc (unat (Max (dom h)))])"
proof (induction n arbitrary: i rows)
  case 0
  let ?M = "Max (dom h)"
  from 0 have i: "i = ?M" by (simp add: word_le_nat_alt word_unat_eq_iff)
  have M: "?M \<in> dom h" using assms by (rule Max_in)
  have sub: "{k \<in> dom h. k < ?M} \<subset> dom h" using M by auto
  then have "card {k \<in> dom h. k < ?M} < card (dom h)"
    using assms(1) by (rule psubset_card_mono [rotated])
  then have ne: "card {k \<in> dom h. k < ?M} \<noteq> card (dom h)" by simp
  have "k \<le> ?M" if "h k = Some y" for k y
    using Max_ge [OF assms(1), of k] that by (simp add: domI)
  then have all: "insert ?M {k \<in> dom h. k < ?M} = dom h"
    using M by (auto simp: order_less_le)
  show ?case
    unfolding i
    by (subst dataBlocksLoop_step [OF ne])
      (simp add: M all dataBlocksLoop_done)
next
  case (Suc n)
  let ?M = "Max (dom h)"
  from Suc.prems have lt: "i < ?M"
    by (simp add: word_less_nat_alt)
  have M: "?M \<in> dom h" using assms by (rule Max_in)
  from lt have "?M \<notin> {k \<in> dom h. k < i}" by auto
  with M have sub: "{k \<in> dom h. k < i} \<subset> dom h" by blast
  then have "card {k \<in> dom h. k < i} < card (dom h)"
    using assms(1) by (rule psubset_card_mono [rotated])
  then have ne: "card {k \<in> dom h. k < i} \<noteq> card (dom h)" by simp
  have u: "unat (i + 1) = Suc (unat i)" by (rule unat_succ [OF lt])
  with Suc.prems have n: "unat ?M - unat (i + 1) = n" by simp
  from lt u have le: "i + 1 \<le> ?M"
    by (simp add: word_le_nat_alt word_less_nat_alt)
  from lt have range: "[unat i..<Suc (unat ?M)] = unat i # [Suc (unat i)..<Suc (unat ?M)]"
    by (simp add: upt_conv_Cons word_less_nat_alt)
  have "dataBlocksLoop h i {k \<in> dom h. k < i} rows
      = dataBlocksLoop h (i + 1) {k \<in> dom h. k < i + 1} (rows @ [blockRow h i])"
    by (subst dataBlocksLoop_step [OF ne]) (simp add: below_Suc_word [OF lt])
  also have "\<dots> = Some ((rows @ [blockRow h i])
      @ map (\<lambda>j. blockRow h (of_nat j)) [unat (i + 1)..<Suc (unat ?M)])"
    by (rule Suc.IH [OF n le])
  also have "\<dots> = Some (rows @ map (\<lambda>j. blockRow h (of_nat j)) [unat i..<Suc (unat ?M)])"
    unfolding u range by (simp del: upt_Suc)
  finally show ?case .
qed

lemma dataBlocksLoop_empty:
  "dom h = {} \<Longrightarrow> dataBlocksLoop h 0 {} [] = Some []"
  by (rule dataBlocksLoop_done) simp

lemma getSendOutputData_rows:
  assumes "finite (dom (avgTxsBlockDiffIncluded m))" and "k \<in> dom (avgTxsBlockDiffIncluded m)"
  shows "\<exists>rows. getSendOutputData m = Some rows
     \<and> length rows = Suc (unat (Max (dom (avgTxsBlockDiffIncluded m))))
     \<and> map fst rows = map of_nat [0..<length rows]
     \<and> unat k < length rows"
proof -
  let ?h = "avgTxsBlockDiffIncluded m"
  from assms have ne: "dom ?h \<noteq> {}" by auto
  have "{j \<in> dom ?h. j < 0} = {}" by simp
  with dataBlocksLoop_run [OF assms(1) ne refl, of 0 "[]"]
  have run: "getSendOutputData m
      = Some (map (\<lambda>j. blockRow ?h (of_nat j)) [0..<Suc (unat (Max (dom ?h)))])"
    by (simp add: getSendOutputData_def)
  from assms have "k \<le> Max (dom ?h)" by (rule Max_ge)
  then have "unat k < Suc (unat (Max (dom ?h)))" by (simp add: word_le_nat_alt)
  with run show ?thesis by (simp add: blockRow_def comp_def del: upt_Suc)
qed

lemma dom_increment: "dom (increment h k) = insert k (dom h)"
  by (simp add: increment_def)

lemma keysOf_Nil: "keysOf [] = {}"
  by (simp add: keysOf_def)

lemma keysOf_Cons:
  "keysOf (tx # txs) =
     (case receipt tx of None \<Rightarrow> keysOf txs | Some r \<Rightarrow> insert (histKey r tx) (keysOf txs))"
  by (auto simp: keysOf_def split: option.splits)

lemma keysOf_append: "keysOf (xs @ ys) = keysOf xs \<union> keysOf ys"
  by (auto simp: keysOf_def)

lemma finite_keysOf: "finite (keysOf txs)"
  by (induction txs) (auto simp: keysOf_Nil keysOf_Cons split: option.splits)

lemma tallyTx_Inr_hist:
  "tallyTx bs tx a = Inr a' \<Longrightarrow>
   \<exists>r. receipt tx = Some r
     \<and> avgTxsBlockDiffIncluded (tallyMetrics a')
         = increment (avgTxsBlockDiffIncluded (tallyMetrics a)) (histKey r tx)"
  by (auto simp: tallyTx_def Let_def split: option.splits if_splits)

lemma tallyTx_hist:
  assumes "tallyTx bs tx a = Inr a'"
  shows "dom (avgTxsBlockDiffIncluded (tallyMetrics a'))
     = dom (avgTxsBlockDiffIncluded (tallyMetrics a)) \<union> keysOf [tx]"
proof -
  from tallyTx_Inr_hist [OF assms] obtain r where
    "receipt tx = Some r"
    "avgTxsBlockDiffIncluded (tallyMetrics a')
       = increment (avgTxsBlockDiffIncluded (tallyMetrics a)) (histKey r tx)"
    by blast
  then show ?thesis by (simp add: dom_increment keysOf_Cons keysOf_Nil)
qed

lemma tallyTxs_hist:
  "tallyTxs bs txs a = Inr a' \<Longrightarrow>
   dom (avgTxsBlockDiffIncluded (tallyMetrics a'))
     = dom (avgTxsBlockDiffIncluded (tallyMetrics a)) \<union> keysOf txs"
proof (induction txs arbitrary: a)
  case Nil
  then show ?case by (simp add: keysOf_Nil)
next
  case (Cons tx txs)
  from Cons.prems obtain a1 where
    one: "tallyTx bs tx a = Inr a1" and rest: "tallyTxs bs txs a1 = Inr a'"
    by (auto split: sum.splits)
  have "keysOf (tx # txs) = keysOf [tx] \<union> keysOf txs"
    using keysOf_append [of "[tx]" txs] by simp
  with tallyTx_hist [OF one] Cons.IH [OF rest] show ?case by auto
qed

lemma tallySenders_hist:
  "tallySenders bs al a = Inr a' \<Longrightarrow>
   dom (avgTxsBlockDiffIncluded (tallyMetrics a'))
     = dom (avgTxsBlockDiffIncluded (tallyMetrics a)) \<union> keysOf (concat (map snd al))"
proof (induction al arbitrary: a)
  case Nil
  then show ?case by (simp add: keysOf_Nil)
next
  case (Cons e al)
  obtain senderAddress senderTxs where e: "e = (senderAddress, senderTxs)" by (cases e)
  with Cons.prems obtain a1 where
    one: "tallyTxs bs senderTxs a = Inr a1" and rest: "tallySenders bs al a1 = Inr a'"
    by (auto split: sum.splits)
  from tallyTxs_hist [OF one] Cons.IH [OF rest] e show ?case
    by (auto simp: keysOf_append)
qed

lemma blockAverages_hist:
  "blockAverages bs m = Inr m' \<Longrightarrow> avgTxsBlockDiffIncluded m' = avgTxsBlockDiffIncluded m"
  by (auto simp: blockAverages_def Let_def split: if_splits sum.splits)

lemma artifactAverages_hist:
  "artifactAverages a = Inr m \<Longrightarrow>
   avgTxsBlockDiffIncluded m = avgTxsBlockDiffIncluded (tallyMetrics a)"
  by (auto simp: artifactAverages_def split: if_splits sum.splits)

lemma CollectMetrics_hist:
  assumes "CollectMetrics t = Inr t'" and "senderTransactions t = Some al"
  shows "\<exists>m. metrics t' = Some m
    \<and> dom (avgTxsBlockDiffIncluded m) = keysOf (concat (map snd al))"
proof -
  from assms obtain m1 a' m where
    b: "blockAverages (blocks t) (newMetrics t) = Inr m1" and
    s: "tallySenders (blocks t) al
          \<lparr>tallyMetrics = m1, totalGasPrice = 0, totalTxCount = 0, totalTimeToInclude = 0\<rparr>
        = Inr a'" and
    f: "artifactAverages a' = Inr m" and t': "t' = t\<lparr>metrics := Some m\<rparr>"
    by (auto simp: CollectMetrics_def split: sum.splits)
  from blockAverages_hist [OF b] have "dom (avgTxsBlockDiffIncluded m1) = {}"
    by (simp add: newMetrics_def)
  with tallySenders_hist [OF s] artifactAverages_hist [OF f] t' show ?thesis by simp
qed

lemma histKey_wraps:
  assumes "0 \<le> BlockNumber r" and "BlockNumber r < uint (sentBlock tx)"
  shows "uint (histKey r tx) = 2 ^ 64 - (uint (sentBlock tx) - BlockNumber r)"
proof -
  have s: "uint (sentBlock tx) < 2 ^ 64" using uint_bounded [of "sentBlock tx"] by simp
  with assms have b: "uint (word_of_int (BlockNumber r) :: uint64) = BlockNumber r"
    by (simp add: uint_word_of_int take_bit_int_eq_self)
  from assms have "\<bar>BlockNumber r\<bar> = BlockNumber r" by simp
  then have "histKey r tx = word_of_int (BlockNumber r) - sentBlock tx"
    by (simp add: histKey_def big_Uint64_def)
  then have "uint (histKey r tx) = BlockNumber r - uint (sentBlock tx) + 2 ^ 64"
    using b assms by (simp add: uint_sub_if')
  then show ?thesis by simp
qed

text \<open>
  C10. The histogram key of a resolved artifact is the \<open>uint64\<close> difference of the
  inclusion block number and the recorded submission block number. When
  \<open>CollectMetrics\<close> returns, that key is in the histogram, and the loop of
  \<open>getSendOutputData\<close> ends after one row for each of the distances \<open>0, 1, 2, ...\<close>
  up to the largest key, which is at least that key. When the inclusion number is
  below the submission number the difference wraps: the key is \<open>2^64\<close> minus the
  shortfall, and the loop produces more rows than that.
\<close>

theorem inclusion_distance_wraps:
  assumes "CollectMetrics t = Inr t'" and "senderTransactions t = Some al"
    and "(a, txs) \<in> set al" and "tx \<in> set txs" and "receipt tx = Some r"
  shows "\<exists>m rows. metrics t' = Some m
    \<and> avgTxsBlockDiffIncluded m (big_Uint64 (BlockNumber r) - sentBlock tx) \<noteq> None
    \<and> getSendOutputData m = Some rows
    \<and> length rows = Suc (unat (Max (dom (avgTxsBlockDiffIncluded m))))
    \<and> map fst rows = map of_nat [0..<length rows]
    \<and> unat (big_Uint64 (BlockNumber r) - sentBlock tx) < length rows
    \<and> (0 \<le> BlockNumber r \<and> BlockNumber r < uint (sentBlock tx) \<longrightarrow>
          uint (big_Uint64 (BlockNumber r) - sentBlock tx)
            = 2 ^ 64 - (uint (sentBlock tx) - BlockNumber r)
          \<and> int (length rows) > 2 ^ 64 - (uint (sentBlock tx) - BlockNumber r))"
proof -
  from CollectMetrics_hist [OF assms(1,2)] obtain m where
    m: "metrics t' = Some m" and
    d: "dom (avgTxsBlockDiffIncluded m) = keysOf (concat (map snd al))"
    by blast
  let ?k = "big_Uint64 (BlockNumber r) - sentBlock tx"
  from assms(3,4) have "tx \<in> set (concat (map snd al))" by force
  with assms(5) have "histKey r tx \<in> keysOf (concat (map snd al))"
    unfolding keysOf_def by blast
  then have k: "?k \<in> dom (avgTxsBlockDiffIncluded m)"
    using d by (simp add: histKey_def)
  have fin: "finite (dom (avgTxsBlockDiffIncluded m))"
    unfolding d by (rule finite_keysOf)
  from getSendOutputData_rows [OF fin k] obtain rows where
    rows: "getSendOutputData m = Some rows"
      "length rows = Suc (unat (Max (dom (avgTxsBlockDiffIncluded m))))"
      "map fst rows = map of_nat [0..<length rows]"
      "unat ?k < length rows"
    by blast
  have wrap: "uint ?k = 2 ^ 64 - (uint (sentBlock tx) - BlockNumber r)
      \<and> int (length rows) > 2 ^ 64 - (uint (sentBlock tx) - BlockNumber r)"
    if "0 \<le> BlockNumber r" "BlockNumber r < uint (sentBlock tx)"
  proof -
    from histKey_wraps [OF that] have u: "uint ?k = 2 ^ 64 - (uint (sentBlock tx) - BlockNumber r)"
      by (simp add: histKey_def)
    from rows(4) have "uint ?k < int (length rows)"
      by (metis of_nat_less_iff uint_nat of_nat_unat)
    with u show ?thesis by simp
  qed
  from k have "avgTxsBlockDiffIncluded m ?k \<noteq> None" by auto
  with m rows wrap show ?thesis by blast
qed

lemma ex_early_metrics:
  "CollectMetrics (exTest [exEarlyTx])
     = Inr ((exTest [exEarlyTx])\<lparr>metrics := Some exEarlyMetrics\<rparr>)"
  by (simp add: CollectMetrics_def exTest_def NewTest_def exEntity_def blockAverages_def
      newMetrics_def tallyTx_def exEarlyTx_def exTx_def exReceiptB_def histKey_def
      big_Uint64_def increment_def timeToInclude_def artifactAverages_def uint_quo_def
      big_Div_def exEarlyMetrics_def)

theorem inclusion_distance_wraps_witness:
  "CollectMetrics (exTest [exEarlyTx])
     = Inr ((exTest [exEarlyTx])\<lparr>metrics := Some exEarlyMetrics\<rparr>)
   \<and> senderTransactions (exTest [exEarlyTx]) = Some [(exAddress, [exEarlyTx])]
   \<and> receipt exEarlyTx = Some exReceiptB
   \<and> BlockNumber exReceiptB = 11 \<and> sentBlock exEarlyTx = 12
   \<and> uint (big_Uint64 (BlockNumber exReceiptB) - sentBlock exEarlyTx) = 18446744073709551615
   \<and> (\<exists>rows. getSendOutputData exEarlyMetrics = Some rows
        \<and> length rows = 18446744073709551616)"
proof -
  have b: "senderTransactions (exTest [exEarlyTx]) = Some [(exAddress, [exEarlyTx])]"
    by (simp add: exTest_def)
  have c: "(exAddress, [exEarlyTx]) \<in> set [(exAddress, [exEarlyTx])]" by simp
  have d: "exEarlyTx \<in> set [exEarlyTx]" by simp
  have e: "receipt exEarlyTx = Some exReceiptB" by (simp add: exEarlyTx_def)
  have f: "BlockNumber exReceiptB = 11" "sentBlock exEarlyTx = 12"
    by (simp_all add: exReceiptB_def exEarlyTx_def)
  have g: "Max (dom (avgTxsBlockDiffIncluded exEarlyMetrics)) = - 1"
    by (simp add: exEarlyMetrics_def)
  from inclusion_distance_wraps [OF ex_early_metrics b c d e] obtain rows where
    "getSendOutputData exEarlyMetrics = Some rows"
    "length rows = Suc (unat (Max (dom (avgTxsBlockDiffIncluded exEarlyMetrics))))"
    "uint (big_Uint64 (BlockNumber exReceiptB) - sentBlock exEarlyTx)
       = 2 ^ 64 - (uint (sentBlock exEarlyTx) - BlockNumber exReceiptB)"
    unfolding f by auto
  with ex_early_metrics b e f g show ?thesis by (simp add: unsigned_minus_1_eq_mask mask_eq_exp_minus_1)
qed

section \<open>Preparing the tests\<close>





end
